theory Spec2Isabelle
  imports Main
begin

section \<open>Command line (App.js, lines 21-34)\<close>

text \<open>
  The process environment the script reads: \<open>process.argv\<close>, the directory of the
  script file (\<open>__dirname\<close>) and the working directory of the process
  (\<open>process.cwd()\<close>, which the script never reads).
\<close>

record env =
  argv :: "string list"
  dirname :: string
  cwd :: string

text \<open>\<open>s.startsWith(p)\<close> of JavaScript.\<close>

definition startsWith :: "string \<Rightarrow> string \<Rightarrow> bool" where
  "startsWith s p = (take (length p) s = p)"

text \<open>
  The loop of lines 25-34, with the loop variable \<open>i\<close> and the two variables it
  assigns, \<open>rootFolderIds\<close> and \<open>destinationPath\<close>. \<open>process.argv[i + 1]\<close> is
  \<open>undefined\<close> past the end of the array and the empty string is falsy, so the test
  of line 27 fails in both cases.
\<close>

function parseLoop :: "string list \<Rightarrow> nat \<Rightarrow> string list \<times> string \<Rightarrow> string list \<times> string" where
  "parseLoop av i (ids, dest) =
     (if i < length av then
        (if av ! i = ''--destination'' then
           (if i + 1 < length av \<and> av ! (i + 1) \<noteq> [] \<and> \<not> startsWith (av ! (i + 1)) ''--''
            then parseLoop av (i + 1 + 1) (ids, av ! (i + 1))
            else parseLoop av (i + 1) (ids, dest))
         else parseLoop av (i + 1) (ids @ [av ! i], dest))
      else (ids, dest))"
  by pat_completeness auto
termination
  by (relation "measure (\<lambda>(av, i, acc). length av - i)") auto

declare parseLoop.simps [simp del]

definition parseArgs :: "env \<Rightarrow> string list \<times> string" where
  "parseArgs e = parseLoop (argv e) 2 ([], dirname e)"

definition rootFolderIds :: "env \<Rightarrow> string list" where
  "rootFolderIds e = fst (parseArgs e)"

definition destinationPath :: "env \<Rightarrow> string" where
  "destinationPath e = snd (parseArgs e)"

subsection \<open>The loop as a recursion over the remaining tokens\<close>

text \<open>
  A proof device: the same loop reading the list of tokens not yet consumed.
\<close>

definition usablePath :: "string \<Rightarrow> bool" where
  "usablePath u = (u \<noteq> [] \<and> \<not> startsWith u ''--'')"

fun parseTokens :: "string list \<Rightarrow> string list \<times> string \<Rightarrow> string list \<times> string" where
  "parseTokens [] acc = acc"
| "parseTokens [t] (ids, dest) =
     (if t = ''--destination'' then (ids, dest) else (ids @ [t], dest))"
| "parseTokens (t # u # us) (ids, dest) =
     (if t = ''--destination'' then
        (if usablePath u then parseTokens us (ids, u) else parseTokens (u # us) (ids, dest))
      else parseTokens (u # us) (ids @ [t], dest))"

text \<open>
  Which tokens the loop pushes: \<open>keeps p t\<close> for a token \<open>t\<close> whose predecessor on the
  command line is \<open>p\<close>.
\<close>

definition keeps :: "string \<Rightarrow> string \<Rightarrow> bool" where
  "keeps p t = (t \<noteq> ''--destination'' \<and> \<not> (p = ''--destination'' \<and> usablePath t))"

section \<open>Remote data and errors\<close>

text \<open>
  What the Box client returns. An entry of \<open>folderInfo.item_collection.entries\<close> has an
  \<open>id\<close>, a \<open>name\<close> and a \<open>type\<close> (the script compares it with \<open>"folder"\<close> and
  \<open>"file"\<close>); a \<open>folderInfo\<close> has the folder's \<open>name\<close> and one page of entries.
\<close>

record entry =
  entry_id :: string
  entry_name :: string
  entry_type :: string

record folderInfo =
  folder_name :: string
  folder_entries :: "entry list"

text \<open>
  Modelled from the spec: the shape of the errors of the remote API client, which is
  not part of the script (\<open>RemoteError{statusCode, headers}\<close>, spec 4.1 and 7).
  A rejection reason. \<open>RemoteError statusCode headers\<close> is an API error: it has a
  \<open>statusCode\<close> and a \<open>response\<close> with \<open>headers\<close> (an object, here an association
  list of which the first binding of a key counts). \<open>OtherError\<close> is any error without a
  \<open>statusCode\<close> property (a network failure, a file-system error).
\<close>

datatype error = RemoteError int "(string \<times> string) list" | OtherError string

text \<open>
  The numbers of JavaScript that occur here: \<open>NaN\<close>, the two infinities, and the
  doubles whose value is an integer (\<open>-0\<close> is not told apart from \<open>0\<close>: the script
  prints both as \<open>0\<close> and \<open>setTimeout\<close> treats both alike).
\<close>

datatype number = NaN | PosInfinity | NegInfinity | Finite int

text \<open>
  The double nearest to an integer: 53 binary digits are kept, rounded to the nearest
  value and to the even one on a tie, and a magnitude of \<open>2^1024\<close> or more is an
  infinity. \<open>bitlen n\<close> is the number of binary digits of \<open>n\<close>.
\<close>

fun bitlen :: "nat \<Rightarrow> nat" where
  "bitlen n = (if n = 0 then 0 else Suc (bitlen (n div 2)))"

declare bitlen.simps [simp del]

definition roundDouble :: "int \<Rightarrow> number" where
  "roundDouble m =
     (let a = nat \<bar>m\<bar>; b = bitlen a in
      if b \<le> 53 then Finite m
      else
        let sh = b - 53; q = a div 2 ^ sh; r = a mod 2 ^ sh; h = 2 ^ (sh - 1);
            q' = (if h < r then q + 1 else if r = h \<and> odd q then q + 1 else q);
            v = q' * 2 ^ sh
        in if 2 ^ 1024 \<le> v then (if m < 0 then NegInfinity else PosInfinity)
           else Finite (if m < 0 then - int v else int v))"

text \<open>
  \<open>parseInt(s, 10)\<close>: leading white space is skipped, then an optional sign, then the
  longest run of decimal digits; \<open>NaN\<close> when there is no digit, and otherwise the
  double nearest to the value of the digits (as V8 computes it; the language standard
  lets an implementation ignore the digits after the twentieth). Strings are byte
  strings here, so the white space is the ASCII one and the no-break space.
\<close>

definition isWhiteSpace :: "char \<Rightarrow> bool" where
  "isWhiteSpace c = ((of_char c :: nat) \<in> {9, 10, 11, 12, 13, 32, 160})"

definition isDigit :: "char \<Rightarrow> bool" where
  "isDigit c = (48 \<le> (of_char c :: nat) \<and> (of_char c :: nat) \<le> 57)"

definition digitsVal :: "string \<Rightarrow> int" where
  "digitsVal z = foldl (\<lambda>n c. 10 * n + (of_char c - 48)) 0 z"

definition parseInt10 :: "string \<Rightarrow> number" where
  "parseInt10 s =
     (let s1 = dropWhile isWhiteSpace s;
          neg = (s1 \<noteq> [] \<and> hd s1 = CHR ''-'');
          s2 = (if s1 \<noteq> [] \<and> (hd s1 = CHR ''+'' \<or> hd s1 = CHR ''-'') then tl s1 else s1);
          z = takeWhile isDigit s2
      in if z = [] then NaN else roundDouble ((if neg then - 1 else 1) * digitsVal z))"

text \<open>
  \<open>retryAfter * 1000\<close> of line 134, a product of doubles: the double nearest to the
  exact product.
\<close>

fun timesThousand :: "number \<Rightarrow> number" where
  "timesThousand (Finite m) = roundDouble (m * 1000)"
| "timesThousand NaN = NaN"
| "timesThousand PosInfinity = PosInfinity"
| "timesThousand NegInfinity = NegInfinity"

text \<open>
  The timers of Node, which are not part of the script: \<open>setTimeout(f, ms)\<close> calls
  \<open>f\<close> after \<open>ms\<close> milliseconds when \<open>1 \<le> ms \<le> 2^31 - 1\<close> and after 1 millisecond
  for every other number (\<open>NaN\<close>, zero, a negative or a larger one).
\<close>

fun timeoutDelay :: "number \<Rightarrow> int" where
  "timeoutDelay (Finite m) = (if 1 \<le> m \<and> m \<le> 2147483647 then m else 1)"
| "timeoutDelay NaN = 1"
| "timeoutDelay PosInfinity = 1"
| "timeoutDelay NegInfinity = 1"

text \<open>
  The test of line 153, \<open>error.statusCode === 429 && error.response.headers['retry-after']\<close>
  (a missing header is \<open>undefined\<close> and the empty string is falsy), and the value of
  line 156, \<open>parseInt(error.response.headers['retry-after'], 10)\<close> (it is only
  computed when the test holds; \<open>parseInt(undefined, 10)\<close> is \<open>NaN\<close>).
\<close>

fun isRateLimit :: "error \<Rightarrow> bool" where
  "isRateLimit (RemoteError sc hs) =
     (sc = 429 \<and> (case map_of hs ''retry-after'' of None \<Rightarrow> False | Some v \<Rightarrow> v \<noteq> []))"
| "isRateLimit (OtherError m) = False"

fun retryAfter :: "error \<Rightarrow> number" where
  "retryAfter (RemoteError sc hs) =
     (case map_of hs ''retry-after'' of None \<Rightarrow> NaN | Some v \<Rightarrow> parseInt10 v)"
| "retryAfter (OtherError m) = NaN"

section \<open>Pagination (fetchAllFolderItems, lines 84-101)\<close>

text \<open>
  The callback of \<open>fetchItemsBatch\<close> (lines 89-96): the page is appended to \<open>allItems\<close>
  and, when it holds exactly 1000 entries, the next page is requested at \<open>offset + 1000\<close>.
\<close>

datatype page_result = NextPage nat "entry list" | Done "entry list"

definition pageStep :: "nat \<Rightarrow> entry list \<Rightarrow> entry list \<Rightarrow> page_result" where
  "pageStep offset allItems items =
     (if length items = 1000 then NextPage (offset + 1000) (allItems @ items)
      else Done (allItems @ items))"

text \<open>
  The listing of one folder run on its own. \<open>get offset limit\<close> stands for
  \<open>fetchFolderInfo(folderId, offset, limit)\<close>, that is \<open>client.folders.get\<close> on this
  folder; the requests made are logged in order as pairs \<open>(offset, limit)\<close>. A server
  that returns full pages for ever makes the source loop for ever, hence the option.
\<close>

partial_function (option) fetchItemsBatch ::
  "(nat \<Rightarrow> nat \<Rightarrow> error + folderInfo) \<Rightarrow> nat \<Rightarrow> (nat \<times> nat) list \<Rightarrow> entry list
     \<Rightarrow> (error + (nat \<times> nat) list \<times> entry list) option" where
  "fetchItemsBatch get offset reqs allItems =
     (case get offset 1000 of
        Inl e \<Rightarrow> Some (Inl e)
      | Inr info \<Rightarrow>
          (case pageStep offset allItems (folder_entries info) of
             NextPage offset' allItems' \<Rightarrow>
               fetchItemsBatch get offset' (reqs @ [(offset, 1000)]) allItems'
           | Done allItems' \<Rightarrow> Some (Inr (reqs @ [(offset, 1000)], allItems'))))"

definition fetchAllFolderItems ::
  "(nat \<Rightarrow> nat \<Rightarrow> error + folderInfo) \<Rightarrow> (error + (nat \<times> nat) list \<times> entry list) option" where
  "fetchAllFolderItems get = fetchItemsBatch get 0 [] []"

text \<open>
  Modelled from the spec: the paging contract of the remote API, which is not part of
  the script (\<open>listChildren(folderId, offset, limit)\<close>, spec 4.1 and 6). For a folder
  with children \<open>cs\<close> a request returns at most \<open>limit\<close> children, starting at
  \<open>offset\<close>.
\<close>

definition boxFolder :: "string \<Rightarrow> entry list \<Rightarrow> nat \<Rightarrow> nat \<Rightarrow> error + folderInfo" where
  "boxFolder nm cs offset limit =
     Inr \<lparr>folder_name = nm, folder_entries = take limit (drop offset cs)\<rparr>"

section \<open>The event loop\<close>

text \<open>
  The script is asynchronous: it starts requests, and the callbacks run when the
  environment completes them, one callback at a time and in the order the environment
  chooses. The model is a state (what is in flight, the \<open>downloadedFiles\<close> arrays,
  the trace of calls made so far) and a step for each completion. A callback, with the
  promise reactions it triggers, runs to its end before the next completion is handled.
  File-system calls and logging are taken to succeed, and a response to have the shape
  above.
\<close>

text \<open>A local path: a string, or \<open>path.join(p, name)\<close> (kept symbolic).\<close>

datatype path = Dir string | Join path string

datatype logMessage =
    Downloading string
  | Completed string
  | RateLimitWait string number

datatype errorMessage =
    RateLimitExceeded error
  | ErrorDownloading string error
  | ErrorFetchingRoot string error

text \<open>
  The calls the script makes, as they appear in the trace:
  \<^item> \<open>FoldersGet folderId offset limit\<close>: \<open>client.folders.get(folderId, {limit, offset})\<close>;
  \<^item> \<open>GetReadStream fileId\<close>: \<open>client.files.getReadStream(fileId, null)\<close>;
  \<^item> \<open>CreateWriteStream p\<close>, \<open>Pipe fileId p\<close>: lines 74 and 75;
  \<^item> \<open>Push a fileId\<close>: \<open>downloadedFiles.push(fileId)\<close> on the array at address \<open>a\<close>;
  \<^item> \<open>EnsureDir p\<close>: lines 117-119 (\<open>mkdirSync\<close> unless the directory exists);
  \<^item> \<open>MkdirRecursive p\<close>: line 144;
  \<^item> \<open>SetTimeout ms\<close>: line 132, with the number of milliseconds it is given;
  \<^item> \<open>Log\<close>, \<open>LogError\<close>: the two logging functions, without the time stamp;
  \<^item> \<open>RetryResolved rootFolderId\<close>: the promise of \<open>retryDownload\<close> is fulfilled.
  The trace also records what becomes of a copy started by \<open>stream.pipe(output)\<close>,
  which the script does not observe (it attaches no listener to either stream):
  \<^item> \<open>CopyEnded fileId p\<close>: the read stream has ended and all its bytes are written;
  \<^item> \<open>CopyFailed fileId p e\<close>: the copy has stopped with an error.
\<close>

datatype event =
    FoldersGet string nat nat
  | GetReadStream string
  | CreateWriteStream path
  | Pipe string path
  | Push nat string
  | EnsureDir path
  | MkdirRecursive path
  | SetTimeout number
  | Log logMessage
  | LogError errorMessage
  | RetryResolved string
  | CopyEnded string path
  | CopyFailed string path error

text \<open>
  The variables in scope of one call of \<open>retryDownload\<close>: the number of the call (the
  attempt), \<open>rootFolderId\<close>, \<open>localRootPath\<close> and the parameter \<open>downloadedFiles\<close>, the
  address of an array. \<open>downloadFilesRecursively\<close> hands \<open>downloadedFiles\<close> on to every
  nested call unchanged.
\<close>

record ctx =
  attempt :: nat
  rootFolderId :: string
  localRootPath :: path
  downloadedFiles :: nat

text \<open>
  What is in flight:
  \<^item> \<open>RootInfo r\<close>: \<open>fetchFolderInfo(rootFolderId)\<close> of line 140;
  \<^item> \<open>ListPage c folderId localFolderPath offset allItems\<close>: a page request of
    \<open>fetchItemsBatch(offset)\<close> inside \<open>downloadFilesRecursively(folderId, localFolderPath, _)\<close>;
  \<^item> \<open>OpenStream c file localFolderPath\<close>: \<open>getReadStream(file.id)\<close> of line 73;
  \<^item> \<open>Timer c ms\<close>: the timer of \<open>handleRateLimitError\<close>, which the runtime fires
    after \<open>ms\<close> milliseconds;
  \<^item> \<open>Copying file output\<close>: the copy that \<open>stream.pipe(output)\<close> of line 75 has started,
    from the read stream of the file to the write stream on the local path \<open>output\<close>.
    No promise of the script waits for it.
\<close>

datatype op =
    RootInfo string
  | ListPage ctx string path nat "entry list"
  | OpenStream ctx entry path
  | Timer ctx int
  | Copying entry path

record state =
  destination :: string
  ledger :: "nat \<Rightarrow> string list"
  nextLedger :: nat
  nextAttempt :: nat
  settled :: "nat set"
  pending :: "op list"
  events :: "event list"

text \<open>
  What the environment does to the \<open>k\<close>-th of the things in flight: a listing arrives,
  a read stream is opened, a copy ends, a request or a copy fails, a timer fires.
\<close>

datatype completion =
    Listed nat folderInfo
  | Opened nat
  | Copied nat
  | Failed nat error
  | Fired nat

definition emit :: "event list \<Rightarrow> state \<Rightarrow> state" where
  "emit evs s = s\<lparr>events := events s @ evs\<rparr>"

definition start :: "op \<Rightarrow> state \<Rightarrow> state" where
  "start x s = s\<lparr>pending := pending s @ [x]\<rparr>"

definition removeAt :: "nat \<Rightarrow> 'a list \<Rightarrow> 'a list" where
  "removeAt k xs = take k xs @ drop (Suc k) xs"

definition finish :: "nat \<Rightarrow> state \<Rightarrow> state" where
  "finish k s = s\<lparr>pending := removeAt k (pending s)\<rparr>"

text \<open>
  \<open>log\<close> and \<open>logError\<close> (lines 44-58), and \<open>fetchFolderInfo\<close> (lines 62-67): the
  request is made and \<open>x\<close>, which stands for the promise with the callbacks its caller
  attaches, is in flight.
\<close>

definition log :: "logMessage \<Rightarrow> state \<Rightarrow> state" where
  "log m s = emit [Log m] s"

definition logError :: "errorMessage \<Rightarrow> state \<Rightarrow> state" where
  "logError m s = emit [LogError m] s"

definition fetchFolderInfo :: "op \<Rightarrow> string \<Rightarrow> nat \<Rightarrow> nat \<Rightarrow> state \<Rightarrow> state" where
  "fetchFolderInfo x folderId offset limit s =
     start x (emit [FoldersGet folderId offset limit] s)"

fun opAttempt :: "op \<Rightarrow> nat option" where
  "opAttempt (ListPage c f p off items) = Some (attempt c)"
| "opAttempt (OpenStream c file p) = Some (attempt c)"
| "opAttempt (RootInfo r) = None"
| "opAttempt (Timer c ms) = None"
| "opAttempt (Copying file p) = None"

text \<open>Some request of attempt \<open>a\<close> is still in flight.\<close>

definition outstanding :: "nat \<Rightarrow> op list \<Rightarrow> bool" where
  "outstanding a ops = list_ex (\<lambda>x. opAttempt x = Some a) ops"

text \<open>
  The call \<open>downloadFilesRecursively(folderId, localFolderPath, downloadedFiles)\<close>:
  synchronously it requests the first page (lines 99, 88, 63).
\<close>

definition downloadFilesRecursively :: "ctx \<Rightarrow> string \<Rightarrow> path \<Rightarrow> state \<Rightarrow> state" where
  "downloadFilesRecursively c folderId localFolderPath s =
     fetchFolderInfo (ListPage c folderId localFolderPath 0 []) folderId 0 1000 s"

text \<open>
  \<open>downloadFiles(files)\<close>, lines 70-82: for every file not in the array, the read stream
  is requested.
\<close>

definition downloadFiles :: "ctx \<Rightarrow> path \<Rightarrow> entry list \<Rightarrow> state \<Rightarrow> state" where
  "downloadFiles c localFolderPath files s =
     fold (\<lambda>file st.
        if entry_id file \<notin> set (ledger st (downloadedFiles c))
        then start (OpenStream c file localFolderPath) (emit [GetReadStream (entry_id file)] st)
        else st) files s"

text \<open>The callback of lines 104-125, run when the last page of the folder has arrived.\<close>

definition listingDone :: "ctx \<Rightarrow> string \<Rightarrow> path \<Rightarrow> entry list \<Rightarrow> state \<Rightarrow> state" where
  "listingDone c folderId localFolderPath allItems s =
     (let folders = filter (\<lambda>item. entry_type item = ''folder'') allItems;
          files = filter (\<lambda>item. entry_type item = ''file'') allItems;
          s1 = log (Downloading folderId) s;
          newFiles = filter (\<lambda>file. entry_id file \<notin> set (ledger s1 (downloadedFiles c))) files;
          s2 = downloadFiles c localFolderPath newFiles s1
      in fold (\<lambda>subfolder st.
           let subfolderLocalPath = Join localFolderPath (entry_name subfolder)
           in downloadFilesRecursively c (entry_id subfolder) subfolderLocalPath
                (emit [EnsureDir subfolderLocalPath] st)) folders s2)"

text \<open>The callback of lines 89-96 for a page that has arrived.\<close>

definition pageFetched ::
  "ctx \<Rightarrow> string \<Rightarrow> path \<Rightarrow> nat \<Rightarrow> entry list \<Rightarrow> folderInfo \<Rightarrow> state \<Rightarrow> state" where
  "pageFetched c folderId localFolderPath offset allItems info s =
     (case pageStep offset allItems (folder_entries info) of
        NextPage offset' allItems' \<Rightarrow>
          fetchFolderInfo (ListPage c folderId localFolderPath offset' allItems')
            folderId offset' 1000 s
      | Done allItems' \<Rightarrow> listingDone c folderId localFolderPath allItems' s)"

text \<open>
  The callback of lines 73-77 for a read stream that has been opened: the write stream
  is created, \<open>pipe\<close> starts the copy, which is then in flight, and the id is pushed.
\<close>

definition streamOpened :: "ctx \<Rightarrow> entry \<Rightarrow> path \<Rightarrow> state \<Rightarrow> state" where
  "streamOpened c file localFolderPath s =
     (let output = Join localFolderPath (entry_name file);
          a = downloadedFiles c;
          s1 = start (Copying file output)
                 (emit [CreateWriteStream output, Pipe (entry_id file) output] s)
      in (emit [Push a (entry_id file)] s1)
           \<lparr>ledger := (ledger s)(a := ledger s a @ [entry_id file])\<rparr>)"

text \<open>
  The promise of \<open>downloadFilesRecursively\<close> at the root of an attempt is built from
  \<open>Promise.all\<close> only: it is fulfilled when no request of the attempt is in flight any
  more, and rejected by the first request of the attempt that fails; what happens to
  the attempt's other requests afterwards does not change it, and nothing cancels them.
  \<open>settled\<close> holds the attempts whose promise is fulfilled or rejected.
  Lines 149-151 run on fulfilment, lines 152-163 on rejection.
\<close>

definition resolveIfDone :: "ctx \<Rightarrow> state \<Rightarrow> state" where
  "resolveIfDone c s =
     (if attempt c \<notin> settled s \<and> \<not> outstanding (attempt c) (pending s)
      then emit [RetryResolved (rootFolderId c)]
             (log (Completed (rootFolderId c)) (s\<lparr>settled := insert (attempt c) (settled s)\<rparr>))
      else s)"

text \<open>
  \<open>handleRateLimitError(rootFolderId, retryAfter)\<close>, lines 129-136: the wait is logged
  and the timer set. The timer in flight stands for the promise with the callback of
  line 158, which is why it carries \<open>c\<close>.
\<close>

definition handleRateLimitError :: "ctx \<Rightarrow> string \<Rightarrow> number \<Rightarrow> state \<Rightarrow> state" where
  "handleRateLimitError c rootId wait s =
     start (Timer c (timeoutDelay (timesThousand wait)))
       (emit [SetTimeout (timesThousand wait)] (log (RateLimitWait rootId wait) s))"

definition rejectAttempt :: "ctx \<Rightarrow> error \<Rightarrow> state \<Rightarrow> state" where
  "rejectAttempt c e s =
     (if attempt c \<in> settled s then s
      else
        let s1 = s\<lparr>settled := insert (attempt c) (settled s)\<rparr> in
        if isRateLimit e then
          handleRateLimitError c (rootFolderId c) (retryAfter e)
            (logError (RateLimitExceeded e) s1)
        else
          emit [RetryResolved (rootFolderId c)]
            (logError (ErrorDownloading (rootFolderId c) e) s1))"

text \<open>
  \<open>retryDownload(downloadedFiles)\<close>, line 148: a new attempt on the root folder with
  the array it is given.
\<close>

definition retryDownload :: "string \<Rightarrow> path \<Rightarrow> nat \<Rightarrow> state \<Rightarrow> state" where
  "retryDownload root lpath a s =
     (let c = \<lparr>attempt = nextAttempt s, rootFolderId = root, localRootPath = lpath,
               downloadedFiles = a\<rparr>
      in downloadFilesRecursively c root lpath (s\<lparr>nextAttempt := nextAttempt s + 1\<rparr>))"

text \<open>
  The callback of lines 141-167: the local root directory is created and
  \<open>retryDownload([])\<close> is called with a new, empty array.
\<close>

definition rootFetched :: "string \<Rightarrow> folderInfo \<Rightarrow> state \<Rightarrow> state" where
  "rootFetched root info s =
     (let lpath = Join (Dir (destination s)) (folder_name info);
          a = nextLedger s;
          s1 = (emit [MkdirRecursive lpath] s)
                 \<lparr>ledger := (ledger s)(a := []), nextLedger := a + 1\<rparr>
      in retryDownload root lpath a s1)"

text \<open>
  One completion. A completion that does not fit what it names (or names nothing)
  changes nothing. When a copy ends or fails no code of the script runs: the trace
  records it and the copy is no longer in flight. (If the runtime ends the process on
  such an error, the run stops there: the schedule is shorter.)
\<close>

fun onListed :: "op \<Rightarrow> folderInfo \<Rightarrow> state \<Rightarrow> state option" where
  "onListed (RootInfo r) info s = Some (rootFetched r info s)"
| "onListed (ListPage c f p off items) info s =
     Some (resolveIfDone c (pageFetched c f p off items info s))"
| "onListed (OpenStream c file p) info s = None"
| "onListed (Timer c ms) info s = None"
| "onListed (Copying file p) info s = None"

fun onOpened :: "op \<Rightarrow> state \<Rightarrow> state option" where
  "onOpened (OpenStream c file p) s = Some (resolveIfDone c (streamOpened c file p s))"
| "onOpened (RootInfo r) s = None"
| "onOpened (ListPage c f p off items) s = None"
| "onOpened (Timer c ms) s = None"
| "onOpened (Copying file p) s = None"

fun onCopied :: "op \<Rightarrow> state \<Rightarrow> state option" where
  "onCopied (Copying file p) s = Some (emit [CopyEnded (entry_id file) p] s)"
| "onCopied (RootInfo r) s = None"
| "onCopied (ListPage c f p off items) s = None"
| "onCopied (OpenStream c file p) s = None"
| "onCopied (Timer c ms) s = None"

fun onFailed :: "op \<Rightarrow> error \<Rightarrow> state \<Rightarrow> state option" where
  "onFailed (RootInfo r) e s = Some (logError (ErrorFetchingRoot r e) s)"
| "onFailed (ListPage c f p off items) e s = Some (rejectAttempt c e s)"
| "onFailed (OpenStream c file p) e s = Some (rejectAttempt c e s)"
| "onFailed (Copying file p) e s = Some (emit [CopyFailed (entry_id file) p e] s)"
| "onFailed (Timer c ms) e s = None"

fun onFired :: "op \<Rightarrow> state \<Rightarrow> state option" where
  "onFired (Timer c ms) s =
     Some (retryDownload (rootFolderId c) (localRootPath c) (downloadedFiles c) s)"
| "onFired (RootInfo r) s = None"
| "onFired (ListPage c f p off items) s = None"
| "onFired (OpenStream c file p) s = None"
| "onFired (Copying file p) s = None"

definition complete :: "nat \<Rightarrow> (op \<Rightarrow> state \<Rightarrow> state option) \<Rightarrow> state \<Rightarrow> state" where
  "complete k h s =
     (if k < length (pending s)
      then (case h (pending s ! k) (finish k s) of None \<Rightarrow> s | Some s' \<Rightarrow> s')
      else s)"

fun step :: "state \<Rightarrow> completion \<Rightarrow> state" where
  "step s (Listed k info) = complete k (\<lambda>x. onListed x info) s"
| "step s (Opened k) = complete k onOpened s"
| "step s (Copied k) = complete k onCopied s"
| "step s (Failed k e) = complete k (\<lambda>x. onFailed x e) s"
| "step s (Fired k) = complete k onFired s"

definition run :: "completion list \<Rightarrow> state \<Rightarrow> state" where
  "run sched s = foldl step s sched"

text \<open>
  The script from line 21 on: the command line is parsed and \<open>forEach\<close> (line 139)
  requests the \<open>folderInfo\<close> of every root folder.
\<close>

definition initial :: "env \<Rightarrow> state" where
  "initial e =
     \<lparr>destination = destinationPath e, ledger = (\<lambda>a. []), nextLedger = 0, nextAttempt = 0,
      settled = {}, pending = [], events = []\<rparr>"

definition main :: "env \<Rightarrow> state" where
  "main e =
     fold (\<lambda>root. fetchFolderInfo (RootInfo root) root 0 1000) (rootFolderIds e) (initial e)"

section \<open>Derived notions\<close>

text \<open>
  What the callback of lines 104-125 starts, in closed form, for a folder whose listing is
  \<open>allItems\<close> when the array holds \<open>L\<close>: the files it requests, the subfolders it
  descends into, the calls it makes and the requests it leaves in flight.
\<close>

definition newFiles :: "string list \<Rightarrow> entry list \<Rightarrow> entry list" where
  "newFiles L allItems =
     filter (\<lambda>file. entry_id file \<notin> set L) (filter (\<lambda>item. entry_type item = ''file'') allItems)"

definition subfolders :: "entry list \<Rightarrow> entry list" where
  "subfolders allItems = filter (\<lambda>item. entry_type item = ''folder'') allItems"

definition listingEvents :: "string \<Rightarrow> path \<Rightarrow> string list \<Rightarrow> entry list \<Rightarrow> event list" where
  "listingEvents folderId p L allItems =
     Log (Downloading folderId) #
     map (\<lambda>file. GetReadStream (entry_id file)) (newFiles L allItems) @
     concat (map (\<lambda>sub. [EnsureDir (Join p (entry_name sub)), FoldersGet (entry_id sub) 0 1000])
       (subfolders allItems))"

definition listingOps :: "ctx \<Rightarrow> path \<Rightarrow> string list \<Rightarrow> entry list \<Rightarrow> op list" where
  "listingOps c p L allItems =
     map (\<lambda>file. OpenStream c file p) (newFiles L allItems) @
     map (\<lambda>sub. ListPage c (entry_id sub) (Join p (entry_name sub)) 0 []) (subfolders allItems)"

text \<open>The variables of the call of \<open>retryDownload\<close> a request or timer belongs to.\<close>

fun opCtx :: "op \<Rightarrow> ctx option" where
  "opCtx (ListPage c f p off items) = Some c"
| "opCtx (OpenStream c file p) = Some c"
| "opCtx (Timer c ms) = Some c"
| "opCtx (RootInfo r) = None"
| "opCtx (Copying file p) = None"

text \<open>
  Arrays are allocated in order: nothing is stored beyond \<open>nextLedger\<close>, and every
  request in flight refers to an allocated array.
\<close>

definition wf :: "state \<Rightarrow> bool" where
  "wf s = ((\<forall>a \<ge> nextLedger s. ledger s a = []) \<and>
           (\<forall>x \<in> set (pending s). \<forall>c. opCtx x = Some c \<longrightarrow> downloadedFiles c < nextLedger s))"

text \<open>
  A trace in which pipes and pushes come in pairs: every \<open>Pipe\<close> is directly followed
  by the \<open>Push\<close> of the same file id, and there is no other \<open>Push\<close>
  (\<open>marksFrom (Some f)\<close> reads the trace just after a \<open>Pipe\<close> of \<open>f\<close>).
\<close>

fun isMark :: "event \<Rightarrow> bool" where
  "isMark (Pipe f p) = True"
| "isMark (Push a f) = True"
| "isMark ev = False"

fun marksFrom :: "string option \<Rightarrow> event list \<Rightarrow> bool" where
  "marksFrom None [] = True"
| "marksFrom (Some f) [] = False"
| "marksFrom None (ev # es) =
     (case ev of Pipe f p \<Rightarrow> marksFrom (Some f) es | Push a g \<Rightarrow> False | _ \<Rightarrow> marksFrom None es)"
| "marksFrom (Some f) (ev # es) =
     (case ev of Push a g \<Rightarrow> g = f \<and> marksFrom None es | _ \<Rightarrow> False)"

definition wellMarked :: "event list \<Rightarrow> bool" where
  "wellMarked evs = marksFrom None evs"

text \<open>The arrays hold exactly the file ids that were pushed.\<close>

definition pushed :: "state \<Rightarrow> bool" where
  "pushed s = (\<forall>a f. f \<in> set (ledger s a) \<longleftrightarrow> Push a f \<in> set (events s))"

text \<open>
  The state in which \<open>retryDownload(downloadedFiles)\<close> has just been called for a root
  folder, the array (at address 0) holding \<open>L\<close>: the synchronizer started on a given
  ledger.
\<close>

definition syncState :: "string \<Rightarrow> path \<Rightarrow> string \<Rightarrow> string list \<Rightarrow> state" where
  "syncState root lp dest L =
     retryDownload root lp 0
       \<lparr>destination = dest, ledger = (\<lambda>a. if a = 0 then L else []), nextLedger = 1, nextAttempt = 0,
        settled = {}, pending = [], events = []\<rparr>"

text \<open>The entries the remote side lists in the course of a schedule.\<close>

fun listed :: "completion \<Rightarrow> entry list" where
  "listed (Listed k info) = folder_entries info"
| "listed (Opened k) = []"
| "listed (Copied k) = []"
| "listed (Failed k e) = []"
| "listed (Fired k) = []"

definition listedEntries :: "completion list \<Rightarrow> entry list" where
  "listedEntries sched = concat (map listed sched)"

text \<open>The calls that make up a file transfer.\<close>

fun isTransfer :: "event \<Rightarrow> bool" where
  "isTransfer (GetReadStream f) = True"
| "isTransfer (CreateWriteStream p) = True"
| "isTransfer (Pipe f p) = True"
| "isTransfer (Push a f) = True"
| "isTransfer ev = False"

text \<open>
  Every request in flight is a page request or a timer on the array at address 0, and
  the files listed so far are all in \<open>L\<close>.
\<close>

fun quietOp :: "string list \<Rightarrow> op \<Rightarrow> bool" where
  "quietOp L (ListPage c f p off items) =
     (downloadedFiles c = 0 \<and>
      (\<forall>x \<in> set items. entry_type x = ''file'' \<longrightarrow> entry_id x \<in> set L))"
| "quietOp L (Timer c ms) = (downloadedFiles c = 0)"
| "quietOp L (Copying file p) = False"
| "quietOp L (RootInfo r) = False"
| "quietOp L (OpenStream c file p) = False"

definition quiet :: "string list \<Rightarrow> state \<Rightarrow> bool" where
  "quiet L s = (ledger s 0 = L \<and> (\<forall>x \<in> set (pending s). quietOp L x) \<and>
                (\<forall>ev \<in> set (events s). \<not> isTransfer ev))"

text \<open>
  A root whose first page request is answered with a rate-limit error each time:
  every error, with the timer that follows it.
\<close>

definition retries :: "error list \<Rightarrow> completion list" where
  "retries es = concat (map (\<lambda>e. [Failed 0 e, Fired 0]) es)"

definition retryEvents :: "string \<Rightarrow> error list \<Rightarrow> event list" where
  "retryEvents root es = concat (map (\<lambda>e.
     [LogError (RateLimitExceeded e), Log (RateLimitWait root (retryAfter e)),
      SetTimeout (timesThousand (retryAfter e)), FoldersGet root 0 1000]) es)"

section \<open>The command line: proofs\<close>

lemma parseLoop_drop:
  "parseLoop av i acc = parseTokens (drop i av) acc"
proof (induction av i acc rule: parseLoop.induct)
  case (1 av i ids dest)
  show ?case
  proof (cases "i < length av")
    case False
    then show ?thesis by (subst parseLoop.simps) simp
  next
    case lt: True
    then have d: "drop i av = av ! i # drop (Suc i) av"
      by (simp add: Cons_nth_drop_Suc)
    show ?thesis
    proof (cases "Suc i < length av")
      case False
      with lt have e: "drop (Suc i) av = []" by simp
      from lt False 1 show ?thesis
        by (subst parseLoop.simps) (simp add: d e)
    next
      case True
      then have d2: "drop (Suc i) av = av ! Suc i # drop (Suc (Suc i)) av"
        by (simp add: Cons_nth_drop_Suc)
      from lt True 1 show ?thesis
        by (subst parseLoop.simps) (simp add: d d2 usablePath_def)
    qed
  qed
qed

lemma usablePath_not_marker: "usablePath u \<Longrightarrow> u \<noteq> ''--destination''"
  by (auto simp: usablePath_def startsWith_def)

lemma parseTokens_ids:
  "(p = ''--destination'' \<longrightarrow> ts = [] \<or> \<not> usablePath (hd ts)) \<Longrightarrow>
   fst (parseTokens ts (ids, dest)) =
     ids @ map snd (filter (\<lambda>(q, t). keeps q t) (zip (p # ts) ts))"
proof (induction ts "(ids, dest)" arbitrary: p ids dest rule: parseTokens.induct)
  case 1
  show ?case by simp
next
  case (2 t ids dest)
  then show ?case by (auto simp: keeps_def)
next
  case (3 t u us ids dest)
  show ?case
  proof (cases "t = ''--destination''")
    case False
    with "3.prems" have k: "keeps p t" by (auto simp: keeps_def)
    from False have "fst (parseTokens (t # u # us) (ids, dest)) =
        fst (parseTokens (u # us) (ids @ [t], dest))" by simp
    also from False have "\<dots> = (ids @ [t]) @
        map snd (filter (\<lambda>(q, t). keeps q t) (zip (t # u # us) (u # us)))"
      by (intro 3(3)[OF False]) simp
    finally show ?thesis using k by simp
  next
    case True
    then have nk: "\<not> keeps p t" by (simp add: keeps_def)
    show ?thesis
    proof (cases "usablePath u")
      case u: True
      then have nu: "\<not> keeps t u" using True by (simp add: keeps_def)
      from True u have "fst (parseTokens (t # u # us) (ids, dest)) =
          fst (parseTokens us (ids, u))" by simp
      also have "\<dots> = ids @ map snd (filter (\<lambda>(q, t). keeps q t) (zip (u # us) us))"
        using usablePath_not_marker[OF u] by (intro 3(1)[OF True u]) simp
      finally show ?thesis using nk nu by simp
    next
      case u: False
      from True u have "fst (parseTokens (t # u # us) (ids, dest)) =
          fst (parseTokens (u # us) (ids, dest))" by simp
      also have "\<dots> = ids @
          map snd (filter (\<lambda>(q, t). keeps q t) (zip (t # u # us) (u # us)))"
        using u by (intro 3(2)[OF True u]) simp
      finally show ?thesis using nk by simp
    qed
  qed
qed

lemma parseTokens_dest:
  "''--destination'' \<notin> set ts \<Longrightarrow> snd (parseTokens ts (ids, dest)) = dest"
  by (induction ts "(ids, dest)" arbitrary: ids dest rule: parseTokens.induct) auto

lemma parseTokens_keeps_ids:
  "set ids \<subseteq> set (fst (parseTokens ts (ids, dest)))"
  by (induction ts "(ids, dest)" arbitrary: ids dest rule: parseTokens.induct) auto

lemma parseTokens_unrecognised:
  "t \<in> set ts \<Longrightarrow> startsWith t ''--'' \<Longrightarrow> t \<noteq> ''--destination'' \<Longrightarrow>
   t \<in> set (fst (parseTokens ts (ids, dest)))"
proof (induction ts "(ids, dest)" arbitrary: ids dest rule: parseTokens.induct)
  case 1
  then show ?case by simp
next
  case (2 u ids dest)
  then show ?case by auto
next
  case (3 u v vs ids dest)
  have here: "t \<in> set (fst (parseTokens (v # vs) (ids @ [t], dest)))"
    using parseTokens_keeps_ids[of "ids @ [t]" "v # vs" dest] by auto
  from 3 here show ?case by (auto simp: usablePath_def)
qed

lemma parseTokens_no_marker:
  "''--destination'' \<notin> set ids \<Longrightarrow>
   ''--destination'' \<notin> set (fst (parseTokens ts (ids, dest)))"
  by (induction ts "(ids, dest)" arbitrary: ids dest rule: parseTokens.induct) auto

text \<open>
  C7, as amended. The root-folder ids are, in command-line order, exactly the tokens
  after the first two that are not the exact token \<open>--destination\<close> and are not a
  non-empty token without leading \<open>--\<close> that directly follows \<open>--destination\<close>. So
  every token that starts with \<open>--\<close>, other than \<open>--destination\<close> itself, becomes a
  root-folder id, and \<open>--destination\<close> never does.
\<close>

theorem rootFolderIds_tokens:
  "rootFolderIds e =
     map snd (filter (\<lambda>(p, t). keeps p t) (zip ([] # drop 2 (argv e)) (drop 2 (argv e))))
   \<and> (\<forall>t \<in> set (drop 2 (argv e)).
        startsWith t ''--'' \<and> t \<noteq> ''--destination'' \<longrightarrow> t \<in> set (rootFolderIds e))
   \<and> ''--destination'' \<notin> set (rootFolderIds e)"
proof (intro conjI ballI impI)
  show "rootFolderIds e =
     map snd (filter (\<lambda>(p, t). keeps p t) (zip ([] # drop 2 (argv e)) (drop 2 (argv e))))"
    using parseTokens_ids[of "[]" "drop 2 (argv e)" "[]" "dirname e"]
    by (simp add: rootFolderIds_def parseArgs_def parseLoop_drop)
next
  fix t
  assume "t \<in> set (drop 2 (argv e))" "startsWith t ''--'' \<and> t \<noteq> ''--destination''"
  then show "t \<in> set (rootFolderIds e)"
    by (simp add: rootFolderIds_def parseArgs_def parseLoop_drop parseTokens_unrecognised)
next
  show "''--destination'' \<notin> set (rootFolderIds e)"
    using parseTokens_no_marker[of "[]" "drop 2 (argv e)" "dirname e"]
    by (simp add: rootFolderIds_def parseArgs_def parseLoop_drop)
qed

theorem rootFolderIds_tokens_witness:
  "''--verbose'' \<in> set (drop 2 [''node'', ''App.js'', ''--destination'', ''--verbose'', ''42''])
   \<and> startsWith ''--verbose'' ''--'' \<and> ''--verbose'' \<noteq> ''--destination''
   \<and> ''--verbose'' \<in> set (rootFolderIds
         \<lparr>argv = [''node'', ''App.js'', ''--destination'', ''--verbose'', ''42''],
          dirname = ''/opt/box'', cwd = ''/opt/box''\<rparr>)
   \<and> rootFolderIds
         \<lparr>argv = [''node'', ''App.js'', ''--destination'', ''--verbose'', ''42''],
          dirname = ''/opt/box'', cwd = ''/opt/box''\<rparr> = [''--verbose'', ''42'']"
  using rootFolderIds_tokens[of
      "\<lparr>argv = [''node'', ''App.js'', ''--destination'', ''--verbose'', ''42''],
        dirname = ''/opt/box'', cwd = ''/opt/box''\<rparr>"]
  by (simp add: startsWith_def keeps_def usablePath_def)

text \<open>
  C7 as stated fails: an unrecognised token with a leading dash is pushed onto
  \<open>rootFolderIds\<close> like any other token.
\<close>

theorem leading_dash_token_is_root_id:
  "hd ''--verbose'' = CHR ''-''
   \<and> rootFolderIds \<lparr>argv = [''node'', ''App.js'', ''--verbose'', ''42''],
                    dirname = ''/opt/box'', cwd = ''/opt/box''\<rparr> = [''--verbose'', ''42'']"
  by (simp add: rootFolderIds_def parseArgs_def parseLoop_drop)

lemma destinationPath_default:
  "''--destination'' \<notin> set (drop 2 (argv e)) \<Longrightarrow> destinationPath e = dirname e"
  by (simp add: destinationPath_def parseArgs_def parseLoop_drop parseTokens_dest)

lemma destinationPath_given:
  "usablePath p \<Longrightarrow> ''--destination'' \<notin> set ts \<Longrightarrow> length av = 2 \<Longrightarrow>
   destinationPath \<lparr>argv = av @ ''--destination'' # p # ts, dirname = d, cwd = w\<rparr> = p"
  by (simp add: destinationPath_def parseArgs_def parseLoop_drop parseTokens_dest)

text \<open>
  C8. With no \<open>--destination\<close> on the command line the output root is \<open>__dirname\<close>,
  the directory of the script, whatever the working directory of the process is: here
  the script is started from \<open>/home/user\<close> and writes under \<open>/opt/box\<close>.
\<close>

theorem default_destination_is_dirname:
  "destinationPath \<lparr>argv = [''node'', ''/opt/box/App.js'', ''42''],
                    dirname = ''/opt/box'', cwd = ''/home/user''\<rparr> = ''/opt/box''
   \<and> destinationPath \<lparr>argv = [''node'', ''/opt/box/App.js'', ''42''],
                      dirname = ''/opt/box'', cwd = ''/home/user''\<rparr>
       \<noteq> cwd \<lparr>argv = [''node'', ''/opt/box/App.js'', ''42''],
                dirname = ''/opt/box'', cwd = ''/home/user''\<rparr>"
  by (simp add: destinationPath_def parseArgs_def parseLoop_drop)

section \<open>Pagination: proofs\<close>

lemma offsets_shift:
  "map (\<lambda>i. (offset + 1000 * i, 1000::nat)) [0..<Suc n] =
   (offset, 1000) # map (\<lambda>i. (offset + 1000 + 1000 * i, 1000)) [0..<n]"
  by (subst map_upt_Suc) (simp add: algebra_simps)

lemma fetchItemsBatch_boxFolder:
  "(length cs - offset) div 1000 = k \<Longrightarrow>
   fetchItemsBatch (boxFolder nm cs) offset reqs acc =
     Some (Inr (reqs @ map (\<lambda>i. (offset + 1000 * i, 1000)) [0..<k + 1], acc @ drop offset cs))"
proof (induction k arbitrary: offset reqs acc)
  case 0
  then have short: "length cs - offset < 1000" by simp
  then have "length (take 1000 (drop offset cs)) \<noteq> 1000" by simp
  moreover from short have "take 1000 (drop offset cs) = drop offset cs" by simp
  ultimately show ?case
    by (subst fetchItemsBatch.simps) (simp add: boxFolder_def pageStep_def)
next
  case (Suc k)
  then have long: "1000 \<le> length cs - offset" by simp
  then have full: "length (take 1000 (drop offset cs)) = 1000" by simp
  from Suc.prems have k: "(length cs - (offset + 1000)) div 1000 = k" by simp
  have glue: "take 1000 (drop offset cs) @ drop (offset + 1000) cs = drop offset cs"
    using append_take_drop_id[of 1000 "drop offset cs"] by (simp add: add.commute)
  have "fetchItemsBatch (boxFolder nm cs) offset reqs acc =
        fetchItemsBatch (boxFolder nm cs) (offset + 1000) (reqs @ [(offset, 1000)])
          (acc @ take 1000 (drop offset cs))"
    using full by (subst fetchItemsBatch.simps) (simp add: boxFolder_def pageStep_def)
  also have "\<dots> = Some (Inr ((reqs @ [(offset, 1000)]) @
        map (\<lambda>i. (offset + 1000 + 1000 * i, 1000)) [0..<k + 1],
        (acc @ take 1000 (drop offset cs)) @ drop (offset + 1000) cs))"
    by (rule Suc.IH[OF k])
  also have "\<dots> = Some (Inr (reqs @ map (\<lambda>i. (offset + 1000 * i, 1000)) [0..<Suc k + 1],
        acc @ drop offset cs))"
    using glue by (simp only: offsets_shift Suc_eq_plus1[symmetric]) simp
  finally show ?case .
qed

text \<open>
  C5. Against a folder with children \<open>cs\<close> the listing returns exactly \<open>cs\<close>, after
  requests of limit 1000 at the offsets 0, 1000, 2000, ... in this order, one more than
  there are full pages: every page but the last holds 1000 entries and the last one,
  at which the listing stops, strictly fewer. So 1000 children make two requests, the
  second at offset 1000, and 999 children make one. Whatever the server, a page of at
  most 1000 entries ends the listing exactly if it holds fewer than 1000, and otherwise
  the next request is made 1000 further.
\<close>

theorem fetchAllFolderItems_pages:
  "fetchAllFolderItems (boxFolder nm cs) =
     Some (Inr (map (\<lambda>i. (1000 * i, 1000)) [0..<length cs div 1000 + 1], cs))
   \<and> (\<forall>i < length cs div 1000. length (take 1000 (drop (1000 * i) cs)) = 1000)
   \<and> length (take 1000 (drop (1000 * (length cs div 1000)) cs)) < 1000
   \<and> (length cs = 1000 \<longrightarrow>
        fetchAllFolderItems (boxFolder nm cs) = Some (Inr ([(0, 1000), (1000, 1000)], cs)))
   \<and> (length cs = 999 \<longrightarrow>
        fetchAllFolderItems (boxFolder nm cs) = Some (Inr ([(0, 1000)], cs)))
   \<and> (length items \<le> 1000 \<longrightarrow>
        (pageStep offset acc items = Done (acc @ items)) = (length items < 1000) \<and>
        (pageStep offset acc items = NextPage (offset + 1000) (acc @ items)) =
          (length items = 1000))"
proof -
  have stop: "length items \<le> 1000 \<longrightarrow>
        (pageStep offset acc items = Done (acc @ items)) = (length items < 1000) \<and>
        (pageStep offset acc items = NextPage (offset + 1000) (acc @ items)) =
          (length items = 1000)"
    by (auto simp: pageStep_def)
  have main: "fetchAllFolderItems (boxFolder nm cs) =
     Some (Inr (map (\<lambda>i. (1000 * i, 1000)) [0..<length cs div 1000 + 1], cs))"
    using fetchItemsBatch_boxFolder[of cs 0 "length cs div 1000" nm "[]" "[]"]
    by (simp add: fetchAllFolderItems_def)
  have full: "\<forall>i < length cs div 1000. length (take 1000 (drop (1000 * i) cs)) = 1000"
  proof (intro allI impI)
    fix i assume "i < length cs div 1000"
    then have "Suc i \<le> length cs div 1000" by simp
    then have "Suc i * 1000 \<le> length cs" by (simp add: less_eq_div_iff_mult_less_eq)
    then show "length (take 1000 (drop (1000 * i) cs)) = 1000" by simp
  qed
  have "length cs - 1000 * (length cs div 1000) = length cs mod 1000"
    by (simp add: minus_mult_div_eq_mod)
  then have last: "length (take 1000 (drop (1000 * (length cs div 1000)) cs)) < 1000"
    by simp
  have m1: "length cs = 1000 \<longrightarrow>
        fetchAllFolderItems (boxFolder nm cs) = Some (Inr ([(0, 1000), (1000, 1000)], cs))"
    using main by (auto simp: upt_rec)
  have m2: "length cs = 999 \<longrightarrow>
        fetchAllFolderItems (boxFolder nm cs) = Some (Inr ([(0, 1000)], cs))"
    using main by (auto simp: upt_rec)
  from main full last m1 m2 stop show ?thesis by blast
qed

theorem fetchAllFolderItems_pages_witness:
  "length (replicate 1000 \<lparr>entry_id = ''1'', entry_name = ''a'', entry_type = ''file''\<rparr>) = 1000
   \<and> fetchAllFolderItems (boxFolder ''d''
        (replicate 1000 \<lparr>entry_id = ''1'', entry_name = ''a'', entry_type = ''file''\<rparr>)) =
      Some (Inr ([(0, 1000), (1000, 1000)],
        replicate 1000 \<lparr>entry_id = ''1'', entry_name = ''a'', entry_type = ''file''\<rparr>))
   \<and> length (replicate 999 \<lparr>entry_id = ''1'', entry_name = ''a'', entry_type = ''file''\<rparr>) = 999
   \<and> fetchAllFolderItems (boxFolder ''d''
        (replicate 999 \<lparr>entry_id = ''1'', entry_name = ''a'', entry_type = ''file''\<rparr>)) =
      Some (Inr ([(0, 1000)],
        replicate 999 \<lparr>entry_id = ''1'', entry_name = ''a'', entry_type = ''file''\<rparr>))
   \<and> length (replicate 1000 \<lparr>entry_id = ''1'', entry_name = ''a'', entry_type = ''file''\<rparr>) \<le> 1000
   \<and> pageStep 0 []
        (replicate 1000 \<lparr>entry_id = ''1'', entry_name = ''a'', entry_type = ''file''\<rparr>) =
      NextPage 1000
        (replicate 1000 \<lparr>entry_id = ''1'', entry_name = ''a'', entry_type = ''file''\<rparr>)"
  using fetchAllFolderItems_pages[of "''d''"
          "replicate 1000 \<lparr>entry_id = ''1'', entry_name = ''a'', entry_type = ''file''\<rparr>"
          "replicate 1000 \<lparr>entry_id = ''1'', entry_name = ''a'', entry_type = ''file''\<rparr>"
          0 "[]"]
        fetchAllFolderItems_pages[of "''d''"
          "replicate 999 \<lparr>entry_id = ''1'', entry_name = ''a'', entry_type = ''file''\<rparr>"]
  by simp

section \<open>Numbers: the double read by parseInt and the delay of the timer\<close>

lemma bitlen_le_iff: "bitlen n \<le> k \<longleftrightarrow> n < 2 ^ k"
proof (induction n arbitrary: k rule: bitlen.induct)
  case (1 n)
  show ?case
  proof (cases "n = 0")
    case True
    then show ?thesis by (simp add: bitlen.simps)
  next
    case False
    show ?thesis
    proof (cases k)
      case 0
      with False show ?thesis by (simp add: bitlen.simps)
    next
      case (Suc j)
      from False have "bitlen n \<le> Suc j \<longleftrightarrow> bitlen (n div 2) \<le> j"
        by (subst bitlen.simps) simp
      also have "\<dots> \<longleftrightarrow> n div 2 < 2 ^ j" using 1[OF False] .
      also have "\<dots> \<longleftrightarrow> n < 2 ^ Suc j"
        by (simp add: div_less_iff_less_mult mult.commute)
      finally show ?thesis using Suc by simp
    qed
  qed
qed

lemma roundDouble_small: "\<bar>m\<bar> < 2 ^ 53 \<Longrightarrow> roundDouble m = Finite m"
proof -
  assume "\<bar>m\<bar> < 2 ^ 53"
  then have "nat \<bar>m\<bar> < 2 ^ 53" by (simp add: nat_less_iff)
  then have "bitlen (nat \<bar>m\<bar>) \<le> 53" by (simp only: bitlen_le_iff)
  then show ?thesis by (simp add: roundDouble_def Let_def)
qed

lemma timeout_in_range:
  "1 \<le> n * 1000 \<Longrightarrow> n * 1000 \<le> 2147483647 \<Longrightarrow>
   timesThousand (Finite n) = Finite (n * 1000) \<and>
   timeoutDelay (timesThousand (Finite n)) = n * 1000"
  by (simp add: roundDouble_small)

lemma parseInt10_examples:
  "parseInt10 ''1'' = Finite 1" "parseInt10 ''2'' = Finite 2" "parseInt10 ''5'' = Finite 5"
  "parseInt10 ''120'' = Finite 120" "parseInt10 ''2147484'' = Finite 2147484"
  by (simp_all add: parseInt10_def isWhiteSpace_def isDigit_def digitsVal_def roundDouble_small)

lemma parseInt10_in_range:
  "parseInt10 ''2147483'' = Finite 2147483"
  by (simp add: parseInt10_def isWhiteSpace_def isDigit_def digitsVal_def roundDouble_small)

lemma bitlen_54: "bitlen 9007199254740993 = 54"
  by (simp add: bitlen.simps)

lemma parseInt10_rounds:
  "parseInt10 ''9007199254740993'' = Finite 9007199254740992"
  by (simp add: parseInt10_def isWhiteSpace_def isDigit_def digitsVal_def roundDouble_def
      bitlen_54 Let_def)

section \<open>The event loop: closed forms\<close>

declare log_def [simp] logError_def [simp] fetchFolderInfo_def [simp]
  handleRateLimitError_def [simp]

lemma main_eq:
  "main e =
     \<lparr>destination = destinationPath e, ledger = (\<lambda>a. []), nextLedger = 0, nextAttempt = 0,
      settled = {}, pending = map RootInfo (rootFolderIds e),
      events = map (\<lambda>r. FoldersGet r 0 1000) (rootFolderIds e)\<rparr>"
proof -
  have "fold (\<lambda>root. fetchFolderInfo (RootInfo root) root 0 1000) ids s =
      s\<lparr>pending := pending s @ map RootInfo ids,
        events := events s @ map (\<lambda>r. FoldersGet r 0 1000) ids\<rparr>" for ids s
    by (induction ids arbitrary: s) (simp_all add: start_def emit_def)
  then show ?thesis by (simp add: main_def initial_def)
qed

lemma emit_fields [simp]:
  "destination (emit evs s) = destination s" "ledger (emit evs s) = ledger s"
  "nextLedger (emit evs s) = nextLedger s" "nextAttempt (emit evs s) = nextAttempt s"
  "settled (emit evs s) = settled s" "pending (emit evs s) = pending s"
  "events (emit evs s) = events s @ evs"
  by (simp_all add: emit_def)

lemma start_fields [simp]:
  "destination (start x s) = destination s" "ledger (start x s) = ledger s"
  "nextLedger (start x s) = nextLedger s" "nextAttempt (start x s) = nextAttempt s"
  "settled (start x s) = settled s" "pending (start x s) = pending s @ [x]"
  "events (start x s) = events s"
  by (simp_all add: start_def)

lemma finish_fields [simp]:
  "destination (finish k s) = destination s" "ledger (finish k s) = ledger s"
  "nextLedger (finish k s) = nextLedger s" "nextAttempt (finish k s) = nextAttempt s"
  "settled (finish k s) = settled s" "pending (finish k s) = removeAt k (pending s)"
  "events (finish k s) = events s"
  by (simp_all add: finish_def)

lemma downloadFiles_closed:
  "downloadFiles c p files s =
     s\<lparr>pending := pending s @ map (\<lambda>file. OpenStream c file p)
          (filter (\<lambda>file. entry_id file \<notin> set (ledger s (downloadedFiles c))) files),
       events := events s @ map (\<lambda>file. GetReadStream (entry_id file))
          (filter (\<lambda>file. entry_id file \<notin> set (ledger s (downloadedFiles c))) files)\<rparr>"
proof -
  have "fold (\<lambda>file st.
        if entry_id file \<notin> set (ledger st (downloadedFiles c))
        then start (OpenStream c file p) (emit [GetReadStream (entry_id file)] st)
        else st) files s =
     s\<lparr>pending := pending s @ map (\<lambda>file. OpenStream c file p)
          (filter (\<lambda>file. entry_id file \<notin> set (ledger s (downloadedFiles c))) files),
       events := events s @ map (\<lambda>file. GetReadStream (entry_id file))
          (filter (\<lambda>file. entry_id file \<notin> set (ledger s (downloadedFiles c))) files)\<rparr>"
    by (induction files arbitrary: s) (simp_all add: start_def emit_def)
  then show ?thesis by (simp add: downloadFiles_def)
qed

lemma descend_closed:
  "fold (\<lambda>subfolder st.
           downloadFilesRecursively c (entry_id subfolder) (Join p (entry_name subfolder))
             (emit [EnsureDir (Join p (entry_name subfolder))] st)) folders s =
   s\<lparr>pending := pending s @
        map (\<lambda>sub. ListPage c (entry_id sub) (Join p (entry_name sub)) 0 []) folders,
     events := events s @
        concat (map (\<lambda>sub. [EnsureDir (Join p (entry_name sub)), FoldersGet (entry_id sub) 0 1000])
          folders)\<rparr>"
  by (induction folders arbitrary: s)
     (simp_all add: downloadFilesRecursively_def start_def emit_def)

lemma listingDone_closed:
  "listingDone c folderId p allItems s =
     s\<lparr>pending := pending s @ listingOps c p (ledger s (downloadedFiles c)) allItems,
       events := events s @ listingEvents folderId p (ledger s (downloadedFiles c)) allItems\<rparr>"
  by (simp add: listingDone_def Let_def downloadFiles_closed descend_closed
      listingOps_def listingEvents_def newFiles_def subfolders_def)

lemma pageFetched_full:
  "length (folder_entries info) = 1000 \<Longrightarrow>
   pageFetched c folderId p offset allItems info s =
     s\<lparr>pending := pending s @
          [ListPage c folderId p (offset + 1000) (allItems @ folder_entries info)],
       events := events s @ [FoldersGet folderId (offset + 1000) 1000]\<rparr>"
  by (simp add: pageFetched_def pageStep_def start_def emit_def)

lemma pageFetched_last:
  "length (folder_entries info) \<noteq> 1000 \<Longrightarrow>
   pageFetched c folderId p offset allItems info s =
     s\<lparr>pending := pending s @
          listingOps c p (ledger s (downloadedFiles c)) (allItems @ folder_entries info),
       events := events s @
          listingEvents folderId p (ledger s (downloadedFiles c)) (allItems @ folder_entries info)\<rparr>"
  by (simp add: pageFetched_def pageStep_def listingDone_closed)

lemma step_cases [case_names idle RootListed PageListed Opened RootFailed PageFailed OpenFailed
    Fired Copied CopyFailed]:
  assumes "P s"
    and "\<And>k r info. cm = Listed k info \<Longrightarrow> k < length (pending s) \<Longrightarrow>
           pending s ! k = RootInfo r \<Longrightarrow> P (rootFetched r info (finish k s))"
    and "\<And>k c f p off items info. cm = Listed k info \<Longrightarrow> k < length (pending s) \<Longrightarrow>
           pending s ! k = ListPage c f p off items \<Longrightarrow>
           P (resolveIfDone c (pageFetched c f p off items info (finish k s)))"
    and "\<And>k c file p. cm = Opened k \<Longrightarrow> k < length (pending s) \<Longrightarrow>
           pending s ! k = OpenStream c file p \<Longrightarrow>
           P (resolveIfDone c (streamOpened c file p (finish k s)))"
    and "\<And>k r e. cm = Failed k e \<Longrightarrow> k < length (pending s) \<Longrightarrow>
           pending s ! k = RootInfo r \<Longrightarrow>
           P (emit [LogError (ErrorFetchingRoot r e)] (finish k s))"
    and "\<And>k c f p off items e. cm = Failed k e \<Longrightarrow> k < length (pending s) \<Longrightarrow>
           pending s ! k = ListPage c f p off items \<Longrightarrow> P (rejectAttempt c e (finish k s))"
    and "\<And>k c file p e. cm = Failed k e \<Longrightarrow> k < length (pending s) \<Longrightarrow>
           pending s ! k = OpenStream c file p \<Longrightarrow> P (rejectAttempt c e (finish k s))"
    and "\<And>k c ms. cm = Fired k \<Longrightarrow> k < length (pending s) \<Longrightarrow>
           pending s ! k = Timer c ms \<Longrightarrow>
           P (retryDownload (rootFolderId c) (localRootPath c) (downloadedFiles c) (finish k s))"
    and "\<And>k file p. cm = Copied k \<Longrightarrow> k < length (pending s) \<Longrightarrow>
           pending s ! k = Copying file p \<Longrightarrow>
           P (emit [CopyEnded (entry_id file) p] (finish k s))"
    and "\<And>k file p e. cm = Failed k e \<Longrightarrow> k < length (pending s) \<Longrightarrow>
           pending s ! k = Copying file p \<Longrightarrow>
           P (emit [CopyFailed (entry_id file) p e] (finish k s))"
  shows "P (step s cm)"
proof (cases cm)
  case (Listed k info)
  show ?thesis
  proof (cases "k < length (pending s)")
    case False
    with Listed assms(1) show ?thesis by (simp add: complete_def)
  next
    case True
    with Listed assms(1) assms(2)[of k info] assms(3)[of k info] show ?thesis
      by (cases "pending s ! k") (simp_all add: complete_def)
  qed
next
  case (Opened k)
  show ?thesis
  proof (cases "k < length (pending s)")
    case False
    with Opened assms(1) show ?thesis by (simp add: complete_def)
  next
    case True
    with Opened assms(1) assms(4)[of k] show ?thesis
      by (cases "pending s ! k") (simp_all add: complete_def)
  qed
next
  case (Failed k e)
  show ?thesis
  proof (cases "k < length (pending s)")
    case False
    with Failed assms(1) show ?thesis by (simp add: complete_def)
  next
    case True
    with Failed assms(1) assms(5)[of k e] assms(6)[of k e] assms(7)[of k e] assms(10)[of k e]
    show ?thesis
      by (cases "pending s ! k") (simp_all add: complete_def)
  qed
next
  case (Fired k)
  show ?thesis
  proof (cases "k < length (pending s)")
    case False
    with Fired assms(1) show ?thesis by (simp add: complete_def)
  next
    case True
    with Fired assms(1) assms(8)[of k] show ?thesis
      by (cases "pending s ! k") (simp_all add: complete_def)
  qed
next
  case (Copied k)
  show ?thesis
  proof (cases "k < length (pending s)")
    case False
    with Copied assms(1) show ?thesis by (simp add: complete_def)
  next
    case True
    with Copied assms(1) assms(9)[of k] show ?thesis
      by (cases "pending s ! k") (simp_all add: complete_def)
  qed
qed

lemma set_removeAt: "set (removeAt k xs) \<subseteq> set xs"
  using set_take_subset[of k xs] set_drop_subset[of "Suc k" xs] by (auto simp: removeAt_def)

lemma in_removeAt: "x \<in> set (removeAt k xs) \<Longrightarrow> x \<in> set xs"
  using set_removeAt[of k xs] by blast

lemma retryDownload_fields [simp]:
  "destination (retryDownload r lp a s) = destination s"
  "ledger (retryDownload r lp a s) = ledger s"
  "nextLedger (retryDownload r lp a s) = nextLedger s"
  "nextAttempt (retryDownload r lp a s) = nextAttempt s + 1"
  "settled (retryDownload r lp a s) = settled s"
  "pending (retryDownload r lp a s) = pending s @
     [ListPage \<lparr>attempt = nextAttempt s, rootFolderId = r, localRootPath = lp,
                 downloadedFiles = a\<rparr> r lp 0 []]"
  "events (retryDownload r lp a s) = events s @ [FoldersGet r 0 1000]"
  by (simp_all add: retryDownload_def downloadFilesRecursively_def Let_def)

lemma rootFetched_fields [simp]:
  "destination (rootFetched r info s) = destination s"
  "ledger (rootFetched r info s) = (ledger s)(nextLedger s := [])"
  "nextLedger (rootFetched r info s) = nextLedger s + 1"
  "nextAttempt (rootFetched r info s) = nextAttempt s + 1"
  "settled (rootFetched r info s) = settled s"
  "pending (rootFetched r info s) = pending s @
     [ListPage \<lparr>attempt = nextAttempt s, rootFolderId = r,
                 localRootPath = Join (Dir (destination s)) (folder_name info),
                 downloadedFiles = nextLedger s\<rparr>
        r (Join (Dir (destination s)) (folder_name info)) 0 []]"
  "events (rootFetched r info s) = events s @
     [MkdirRecursive (Join (Dir (destination s)) (folder_name info)), FoldersGet r 0 1000]"
  by (simp_all add: rootFetched_def Let_def emit_def)

lemma streamOpened_fields [simp]:
  "destination (streamOpened c fl p s) = destination s"
  "ledger (streamOpened c fl p s) =
     (ledger s)(downloadedFiles c := ledger s (downloadedFiles c) @ [entry_id fl])"
  "nextLedger (streamOpened c fl p s) = nextLedger s"
  "nextAttempt (streamOpened c fl p s) = nextAttempt s"
  "settled (streamOpened c fl p s) = settled s"
  "pending (streamOpened c fl p s) = pending s @ [Copying fl (Join p (entry_name fl))]"
  "events (streamOpened c fl p s) = events s @
     [CreateWriteStream (Join p (entry_name fl)), Pipe (entry_id fl) (Join p (entry_name fl)),
      Push (downloadedFiles c) (entry_id fl)]"
  by (simp_all add: streamOpened_def Let_def emit_def start_def)

lemma resolveIfDone_fields [simp]:
  "destination (resolveIfDone c s) = destination s"
  "ledger (resolveIfDone c s) = ledger s"
  "nextLedger (resolveIfDone c s) = nextLedger s"
  "nextAttempt (resolveIfDone c s) = nextAttempt s"
  "pending (resolveIfDone c s) = pending s"
  by (simp_all add: resolveIfDone_def)

lemma resolveIfDone_events:
  "events (resolveIfDone c s) = events s @
     (if attempt c \<notin> settled s \<and> \<not> outstanding (attempt c) (pending s)
      then [Log (Completed (rootFolderId c)), RetryResolved (rootFolderId c)] else [])"
  by (simp add: resolveIfDone_def)

lemma resolveIfDone_settled:
  "settled (resolveIfDone c s) =
     (if attempt c \<notin> settled s \<and> \<not> outstanding (attempt c) (pending s)
      then insert (attempt c) (settled s) else settled s)"
  by (simp add: resolveIfDone_def)

lemma rejectAttempt_fields [simp]:
  "destination (rejectAttempt c e s) = destination s"
  "ledger (rejectAttempt c e s) = ledger s"
  "nextLedger (rejectAttempt c e s) = nextLedger s"
  "nextAttempt (rejectAttempt c e s) = nextAttempt s"
  "settled (rejectAttempt c e s) = insert (attempt c) (settled s)"
  by (simp_all add: rejectAttempt_def Let_def insert_absorb)

lemma rejectAttempt_pending:
  "pending (rejectAttempt c e s) =
     pending s @ (if attempt c \<notin> settled s \<and> isRateLimit e
                  then [Timer c (timeoutDelay (timesThousand (retryAfter e)))] else [])"
  by (simp add: rejectAttempt_def Let_def)

lemma rejectAttempt_events:
  "events (rejectAttempt c e s) = events s @
     (if attempt c \<in> settled s then []
      else if isRateLimit e then
        [LogError (RateLimitExceeded e), Log (RateLimitWait (rootFolderId c) (retryAfter e)),
         SetTimeout (timesThousand (retryAfter e))]
      else [LogError (ErrorDownloading (rootFolderId c) e), RetryResolved (rootFolderId c)])"
  by (simp add: rejectAttempt_def Let_def)

lemma pageFetched_fields [simp]:
  "destination (pageFetched c f p off items info s) = destination s"
  "ledger (pageFetched c f p off items info s) = ledger s"
  "nextLedger (pageFetched c f p off items info s) = nextLedger s"
  "nextAttempt (pageFetched c f p off items info s) = nextAttempt s"
  "settled (pageFetched c f p off items info s) = settled s"
  by (simp_all add: pageFetched_def pageStep_def listingDone_closed start_def emit_def)

lemma pageFetched_pending:
  "pending (pageFetched c f p off items info s) = pending s @
     (if length (folder_entries info) = 1000
      then [ListPage c f p (off + 1000) (items @ folder_entries info)]
      else listingOps c p (ledger s (downloadedFiles c)) (items @ folder_entries info))"
  by (simp add: pageFetched_full pageFetched_last)

lemma pageFetched_events:
  "events (pageFetched c f p off items info s) = events s @
     (if length (folder_entries info) = 1000
      then [FoldersGet f (off + 1000) 1000]
      else listingEvents f p (ledger s (downloadedFiles c)) (items @ folder_entries info))"
  by (simp add: pageFetched_full pageFetched_last)

lemma listingOps_ctx: "x \<in> set (listingOps c p L items) \<Longrightarrow> opCtx x = Some c"
  by (auto simp: listingOps_def)

lemma listingEvents_noMark: "ev \<in> set (listingEvents f p L items) \<Longrightarrow> \<not> isMark ev"
  by (auto simp: listingEvents_def)

lemma listingEvents_noPush [simp]: "Push a g \<notin> set (listingEvents f p L items)"
  using listingEvents_noMark[of "Push a g"] by auto

lemma marksFrom_append:
  "marksFrom st xs \<Longrightarrow> marksFrom st (xs @ ys) = marksFrom None ys"
proof (induction xs arbitrary: st)
  case Nil
  then show ?case by (cases st) simp_all
next
  case (Cons ev xs)
  then show ?case by (cases st; cases ev) simp_all
qed

lemma wellMarked_append:
  "wellMarked xs \<Longrightarrow> wellMarked (xs @ ys) = wellMarked ys"
  by (simp add: wellMarked_def marksFrom_append)

lemma marksFrom_noMark:
  "\<forall>ev \<in> set xs. \<not> isMark ev \<Longrightarrow> marksFrom None xs"
proof (induction xs)
  case Nil
  show ?case by simp
next
  case (Cons ev xs)
  then show ?case by (cases ev) simp_all
qed

lemma wellMarked_noMark: "\<forall>ev \<in> set xs. \<not> isMark ev \<Longrightarrow> wellMarked xs"
  by (simp add: wellMarked_def marksFrom_noMark)

lemma wf_step: "wf s \<Longrightarrow> wf (step s cm)"
proof (rule step_cases)
  assume "wf s" then show "wf s" .
next
  fix k r info
  assume w: "wf s" and k: "k < length (pending s)" "pending s ! k = RootInfo r"
  show "wf (rootFetched r info (finish k s))"
    using w by (auto simp: wf_def dest!: in_removeAt)
next
  fix k c f p off items info
  assume w: "wf s" and k: "k < length (pending s)" "pending s ! k = ListPage c f p off items"
  from k have "ListPage c f p off items \<in> set (pending s)" using nth_mem by metis
  with w have c: "downloadedFiles c < nextLedger s" by (auto simp: wf_def)
  show "wf (resolveIfDone c (pageFetched c f p off items info (finish k s)))"
    using w c by (auto simp: wf_def pageFetched_pending dest!: in_removeAt listingOps_ctx)
next
  fix k c fl p
  assume w: "wf s" and k: "k < length (pending s)" "pending s ! k = OpenStream c fl p"
  from k have "OpenStream c fl p \<in> set (pending s)" using nth_mem by metis
  with w have c: "downloadedFiles c < nextLedger s" by (auto simp: wf_def)
  show "wf (resolveIfDone c (streamOpened c fl p (finish k s)))"
    using w c by (auto simp: wf_def dest!: in_removeAt)
next
  fix k r e
  assume w: "wf s"
  show "wf (emit [LogError (ErrorFetchingRoot r e)] (finish k s))"
    using w by (auto simp: wf_def dest!: in_removeAt)
next
  fix k c f p off items e
  assume w: "wf s" and k: "k < length (pending s)" "pending s ! k = ListPage c f p off items"
  from k have "ListPage c f p off items \<in> set (pending s)" using nth_mem by metis
  with w have c: "downloadedFiles c < nextLedger s" by (auto simp: wf_def)
  show "wf (rejectAttempt c e (finish k s))"
    using w c by (auto simp: wf_def rejectAttempt_pending dest!: in_removeAt)
next
  fix k c fl p e
  assume w: "wf s" and k: "k < length (pending s)" "pending s ! k = OpenStream c fl p"
  from k have "OpenStream c fl p \<in> set (pending s)" using nth_mem by metis
  with w have c: "downloadedFiles c < nextLedger s" by (auto simp: wf_def)
  show "wf (rejectAttempt c e (finish k s))"
    using w c by (auto simp: wf_def rejectAttempt_pending dest!: in_removeAt)
next
  fix k c ms
  assume w: "wf s" and k: "k < length (pending s)" "pending s ! k = Timer c ms"
  from k have "Timer c ms \<in> set (pending s)" using nth_mem by metis
  with w have c: "downloadedFiles c < nextLedger s" by (auto simp: wf_def)
  show "wf (retryDownload (rootFolderId c) (localRootPath c) (downloadedFiles c) (finish k s))"
    using w c by (auto simp: wf_def dest!: in_removeAt)
next
  fix k fl p
  assume w: "wf s"
  show "wf (emit [CopyEnded (entry_id fl) p] (finish k s))"
    using w by (auto simp: wf_def dest!: in_removeAt)
next
  fix k fl p e
  assume w: "wf s"
  show "wf (emit [CopyFailed (entry_id fl) p e] (finish k s))"
    using w by (auto simp: wf_def dest!: in_removeAt)
qed

lemma wf_main: "wf (main e)"
  by (simp add: wf_def main_eq)

lemma wf_run: "wf s \<Longrightarrow> wf (run sched s)"
  unfolding run_def by (induction sched arbitrary: s) (simp_all add: wf_step)

lemma resolve_events_noMark:
  "ev \<in> set (if b then [Log (Completed r), RetryResolved r] else []) \<Longrightarrow> \<not> isMark ev"
  by (auto split: if_splits)

lemma wellMarked_step: "wellMarked (events s) \<Longrightarrow> wellMarked (events (step s cm))"
proof (rule step_cases)
  assume "wellMarked (events s)" then show "wellMarked (events s)" .
next
  fix k r info
  assume w: "wellMarked (events s)"
  show "wellMarked (events (rootFetched r info (finish k s)))"
    using w by (simp add: wellMarked_append) (simp add: wellMarked_def)
next
  fix k and c :: ctx and f p off items and info :: folderInfo
  assume w: "wellMarked (events s)"
  define t where "t = pageFetched c f p off items info (finish k s)"
  define A where "A = (if length (folder_entries info) = 1000
      then [FoldersGet f (off + 1000) 1000]
      else listingEvents f p (ledger (finish k s) (downloadedFiles c)) (items @ folder_entries info))"
  define B where "B = (if attempt c \<notin> settled t \<and> \<not> outstanding (attempt c) (pending t)
      then [Log (Completed (rootFolderId c)), RetryResolved (rootFolderId c)] else [])"
  have a: "wellMarked A" unfolding A_def
    by (rule wellMarked_noMark) (auto dest: listingEvents_noMark)
  have b: "wellMarked B" unfolding B_def by (rule wellMarked_noMark) auto
  have "events (resolveIfDone c t) = (events s @ A) @ B"
    unfolding A_def B_def t_def by (simp only: resolveIfDone_events pageFetched_events finish_fields)
  then show "wellMarked (events (resolveIfDone c (pageFetched c f p off items info (finish k s))))"
    using w a b unfolding t_def by (simp only: wellMarked_append)
next
  fix k and c :: ctx and fl p
  assume w: "wellMarked (events s)"
  show "wellMarked (events (resolveIfDone c (streamOpened c fl p (finish k s))))"
    using w by (simp add: resolveIfDone_events wellMarked_append) (simp add: wellMarked_def)
next
  fix k r e
  assume w: "wellMarked (events s)"
  show "wellMarked (events (emit [LogError (ErrorFetchingRoot r e)] (finish k s)))"
    using w by (simp add: wellMarked_append) (simp add: wellMarked_def)
next
  fix k and c :: ctx and f p off items e
  assume w: "wellMarked (events s)"
  show "wellMarked (events (rejectAttempt c e (finish k s)))"
    using w by (simp add: rejectAttempt_events wellMarked_append) (simp add: wellMarked_def)
next
  fix k and c :: ctx and fl p e
  assume w: "wellMarked (events s)"
  show "wellMarked (events (rejectAttempt c e (finish k s)))"
    using w by (simp add: rejectAttempt_events wellMarked_append) (simp add: wellMarked_def)
next
  fix k and c :: ctx
  assume w: "wellMarked (events s)"
  show "wellMarked (events (retryDownload (rootFolderId c) (localRootPath c) (downloadedFiles c)
      (finish k s)))"
    using w by (simp add: wellMarked_append) (simp add: wellMarked_def)
next
  fix k fl p
  assume w: "wellMarked (events s)"
  show "wellMarked (events (emit [CopyEnded (entry_id fl) p] (finish k s)))"
    using w by (simp add: wellMarked_append) (simp add: wellMarked_def)
next
  fix k fl p e
  assume w: "wellMarked (events s)"
  show "wellMarked (events (emit [CopyFailed (entry_id fl) p e] (finish k s)))"
    using w by (simp add: wellMarked_append) (simp add: wellMarked_def)
qed

lemma pushed_step: "wf s \<Longrightarrow> pushed s \<Longrightarrow> pushed (step s cm)"
proof (rule step_cases)
  assume "pushed s" then show "pushed s" .
next
  fix k r and info :: folderInfo
  assume w: "wf s" and p: "pushed s"
  from w have "ledger s (nextLedger s) = []" by (simp add: wf_def)
  then have "(ledger s)(nextLedger s := []) = ledger s" by (metis fun_upd_triv)
  with p show "pushed (rootFetched r info (finish k s))"
    by (simp add: pushed_def)
next
  fix k and c :: ctx and f p off items and info :: folderInfo
  assume p: "pushed s"
  then show "pushed (resolveIfDone c (pageFetched c f p off items info (finish k s)))"
    by (simp add: pushed_def resolveIfDone_events pageFetched_events)
next
  fix k and c :: ctx and fl p
  assume p: "pushed s"
  then show "pushed (resolveIfDone c (streamOpened c fl p (finish k s)))"
    by (auto simp: pushed_def resolveIfDone_events)
next
  fix k r e
  assume p: "pushed s"
  then show "pushed (emit [LogError (ErrorFetchingRoot r e)] (finish k s))"
    by (simp add: pushed_def)
next
  fix k and c :: ctx and f p off items e
  assume p: "pushed s"
  then show "pushed (rejectAttempt c e (finish k s))"
    by (simp add: pushed_def rejectAttempt_events)
next
  fix k and c :: ctx and fl p e
  assume p: "pushed s"
  then show "pushed (rejectAttempt c e (finish k s))"
    by (simp add: pushed_def rejectAttempt_events)
next
  fix k and c :: ctx
  assume p: "pushed s"
  then show "pushed (retryDownload (rootFolderId c) (localRootPath c) (downloadedFiles c)
      (finish k s))"
    by (simp add: pushed_def)
next
  fix k fl p
  assume p: "pushed s"
  then show "pushed (emit [CopyEnded (entry_id fl) p] (finish k s))"
    by (simp add: pushed_def)
next
  fix k fl p e
  assume p: "pushed s"
  then show "pushed (emit [CopyFailed (entry_id fl) p e] (finish k s))"
    by (simp add: pushed_def)
qed

lemma marked_run:
  "wf s \<Longrightarrow> pushed s \<Longrightarrow> wellMarked (events s) \<Longrightarrow>
   pushed (run sched s) \<and> wellMarked (events (run sched s))"
  unfolding run_def
  by (induction sched arbitrary: s) (simp_all add: wf_step pushed_step wellMarked_step)

lemma marked_main: "pushed (main e) \<and> wellMarked (events (main e))"
proof -
  have "\<forall>ev \<in> set (events (main e)). \<not> isMark ev" by (auto simp: main_eq)
  then have "wellMarked (events (main e))" by (rule wellMarked_noMark)
  moreover have "pushed (main e)" by (auto simp: pushed_def main_eq)
  ultimately show ?thesis by simp
qed

text \<open>Only the callback of an opened read stream changes an array.\<close>

lemma ledger_step_other:
  "wf s \<Longrightarrow> \<forall>k. cm \<noteq> Opened k \<Longrightarrow> ledger (step s cm) = ledger s"
proof (cases cm)
  case (Listed k info)
  assume w: "wf s"
  then have "ledger s (nextLedger s) = []" by (simp add: wf_def)
  then have "(ledger s)(nextLedger s := []) = ledger s" by (metis fun_upd_triv)
  with Listed show ?thesis
    by (cases "pending s ! k") (simp_all add: complete_def)
next
  case (Opened k)
  assume "\<forall>k. cm \<noteq> Opened k"
  with Opened show ?thesis by simp
next
  case (Copied k)
  then show ?thesis by (cases "pending s ! k") (simp_all add: complete_def)
next
  case (Failed k e)
  then show ?thesis by (cases "pending s ! k") (simp_all add: complete_def)
next
  case (Fired k)
  then show ?thesis by (cases "pending s ! k") (simp_all add: complete_def)
qed

lemma ledger_step_opened:
  "k < length (pending s) \<Longrightarrow> pending s ! k = OpenStream c fl p \<Longrightarrow>
   ledger (step s (Opened k)) =
     (ledger s)(downloadedFiles c := ledger s (downloadedFiles c) @ [entry_id fl])"
  by (simp add: complete_def)

section \<open>The event loop: properties\<close>

lemmas loop_defs = complete_def finish_def removeAt_def rootFetched_def retryDownload_def
  downloadFilesRecursively_def emit_def start_def resolveIfDone_def outstanding_def
  pageFetched_def pageStep_def listingDone_def downloadFiles_def rejectAttempt_def
  streamOpened_def Let_def

lemma main_single:
  "main \<lparr>argv = [n, sc, r], dirname = d, cwd = w\<rparr> =
     (if r = ''--destination'' then
        \<lparr>destination = d, ledger = (\<lambda>a. []), nextLedger = 0, nextAttempt = 0,
         settled = {}, pending = [], events = []\<rparr>
      else
        \<lparr>destination = d, ledger = (\<lambda>a. []), nextLedger = 0, nextAttempt = 0,
         settled = {}, pending = [RootInfo r], events = [FoldersGet r 0 1000]\<rparr>)"
  by (simp add: main_eq rootFolderIds_def destinationPath_def parseArgs_def parseLoop_drop)

lemma syncState_eq:
  "syncState root lp dest L =
     \<lparr>destination = dest, ledger = (\<lambda>a. if a = 0 then L else []), nextLedger = 1,
      nextAttempt = 1, settled = {},
      pending = [ListPage \<lparr>attempt = 0, rootFolderId = root, localRootPath = lp,
                           downloadedFiles = 0\<rparr> root lp 0 []],
      events = [FoldersGet root 0 1000]\<rparr>"
  by (simp add: syncState_def retryDownload_def downloadFilesRecursively_def start_def emit_def
      Let_def)

lemma step_copied:
  "k < length (pending s) \<Longrightarrow> pending s ! k = Copying fl p \<Longrightarrow>
   step s (Copied k) =
     s\<lparr>pending := removeAt k (pending s), events := events s @ [CopyEnded (entry_id fl) p]\<rparr>"
  by (simp add: complete_def finish_def emit_def)

text \<open>
  C2, as amended. In every state the script can reach, an array holds a file id exactly
  if that id was pushed onto it, and in the trace every push comes directly after the
  call \<open>stream.pipe(output)\<close> on the read stream of the same file and every such call is
  directly followed by that push. The only step that changes an array is the callback
  of a read stream that has been opened, which creates the write stream, calls \<open>pipe\<close>
  and then pushes the id: no id is marked when its stream is requested, nor when the
  request fails, and the end or the failure of a copy changes no array. The mark does
  not wait for the copy: after the callback the copy that \<open>pipe\<close> has started is in
  flight, and when it ends the script runs no code; only the trace records it.
\<close>

theorem marked_iff_piped:
  "(\<forall>a f. f \<in> set (ledger (run sched (main e)) a) \<longleftrightarrow>
            Push a f \<in> set (events (run sched (main e))))
   \<and> wellMarked (events (run sched (main e)))
   \<and> (\<forall>cm. (\<forall>k. cm \<noteq> Opened k) \<longrightarrow>
         ledger (step (run sched (main e)) cm) = ledger (run sched (main e)))
   \<and> (\<forall>k c fl p. k < length (pending (run sched (main e))) \<and>
         pending (run sched (main e)) ! k = OpenStream c fl p \<longrightarrow>
         ledger (step (run sched (main e)) (Opened k)) =
           (ledger (run sched (main e)))
             (downloadedFiles c := ledger (run sched (main e)) (downloadedFiles c) @ [entry_id fl])
         \<and> take 3 (drop (length (events (run sched (main e))))
               (events (step (run sched (main e)) (Opened k)))) =
             [CreateWriteStream (Join p (entry_name fl)),
              Pipe (entry_id fl) (Join p (entry_name fl)),
              Push (downloadedFiles c) (entry_id fl)]
         \<and> pending (step (run sched (main e)) (Opened k)) =
             removeAt k (pending (run sched (main e))) @ [Copying fl (Join p (entry_name fl))])
   \<and> (\<forall>k fl p. k < length (pending (run sched (main e))) \<and>
         pending (run sched (main e)) ! k = Copying fl p \<longrightarrow>
         step (run sched (main e)) (Copied k) =
           (run sched (main e))
             \<lparr>pending := removeAt k (pending (run sched (main e))),
              events := events (run sched (main e)) @ [CopyEnded (entry_id fl) p]\<rparr>)"
proof -
  define s where "s = run sched (main e)"
  have w: "wf s" unfolding s_def by (rule wf_run[OF wf_main])
  have m: "pushed s \<and> wellMarked (events s)"
    unfolding s_def using marked_main[of e] wf_main[of e] by (intro marked_run) simp_all
  have other: "\<forall>cm. (\<forall>k. cm \<noteq> Opened k) \<longrightarrow> ledger (step s cm) = ledger s"
    using w by (simp add: ledger_step_other)
  have opened: "\<forall>k c fl p. k < length (pending s) \<and> pending s ! k = OpenStream c fl p \<longrightarrow>
         ledger (step s (Opened k)) =
           (ledger s)(downloadedFiles c := ledger s (downloadedFiles c) @ [entry_id fl])
         \<and> take 3 (drop (length (events s)) (events (step s (Opened k)))) =
             [CreateWriteStream (Join p (entry_name fl)),
              Pipe (entry_id fl) (Join p (entry_name fl)),
              Push (downloadedFiles c) (entry_id fl)]
         \<and> pending (step s (Opened k)) =
             removeAt k (pending s) @ [Copying fl (Join p (entry_name fl))]"
    by (simp add: complete_def resolveIfDone_events)
  have copied: "\<forall>k fl p. k < length (pending s) \<and> pending s ! k = Copying fl p \<longrightarrow>
         step s (Copied k) =
           s\<lparr>pending := removeAt k (pending s), events := events s @ [CopyEnded (entry_id fl) p]\<rparr>"
    using step_copied by blast
  from m other opened copied show ?thesis unfolding s_def pushed_def by blast
qed

theorem marked_iff_piped_witness:
  "pending (run [Listed 0 \<lparr>folder_name = ''root'', folder_entries = []\<rparr>,
                 Listed 0 \<lparr>folder_name = ''root'', folder_entries =
                   [\<lparr>entry_id = ''f1'', entry_name = ''a.txt'', entry_type = ''file''\<rparr>]\<rparr>]
            (main \<lparr>argv = [''node'', ''App.js'', ''R''], dirname = ''/opt/box'', cwd = ''/opt/box''\<rparr>)) ! 0 =
     OpenStream \<lparr>attempt = 0, rootFolderId = ''R'',
                  localRootPath = Join (Dir ''/opt/box'') ''root'', downloadedFiles = 0\<rparr>
       \<lparr>entry_id = ''f1'', entry_name = ''a.txt'', entry_type = ''file''\<rparr>
       (Join (Dir ''/opt/box'') ''root'')
   \<and> ledger (run [Listed 0 \<lparr>folder_name = ''root'', folder_entries = []\<rparr>,
                 Listed 0 \<lparr>folder_name = ''root'', folder_entries =
                   [\<lparr>entry_id = ''f1'', entry_name = ''a.txt'', entry_type = ''file''\<rparr>]\<rparr>]
            (main \<lparr>argv = [''node'', ''App.js'', ''R''], dirname = ''/opt/box'', cwd = ''/opt/box''\<rparr>)) 0 = []
   \<and> ledger (step (run [Listed 0 \<lparr>folder_name = ''root'', folder_entries = []\<rparr>,
                 Listed 0 \<lparr>folder_name = ''root'', folder_entries =
                   [\<lparr>entry_id = ''f1'', entry_name = ''a.txt'', entry_type = ''file''\<rparr>]\<rparr>]
            (main \<lparr>argv = [''node'', ''App.js'', ''R''], dirname = ''/opt/box'', cwd = ''/opt/box''\<rparr>))
          (Opened 0)) 0 = [''f1'']
   \<and> pending (step (run [Listed 0 \<lparr>folder_name = ''root'', folder_entries = []\<rparr>,
                 Listed 0 \<lparr>folder_name = ''root'', folder_entries =
                   [\<lparr>entry_id = ''f1'', entry_name = ''a.txt'', entry_type = ''file''\<rparr>]\<rparr>]
            (main \<lparr>argv = [''node'', ''App.js'', ''R''], dirname = ''/opt/box'', cwd = ''/opt/box''\<rparr>))
          (Opened 0)) =
       [Copying \<lparr>entry_id = ''f1'', entry_name = ''a.txt'', entry_type = ''file''\<rparr>
          (Join (Join (Dir ''/opt/box'') ''root'') ''a.txt'')]
   \<and> ledger (step (run [Listed 0 \<lparr>folder_name = ''root'', folder_entries = []\<rparr>,
                 Listed 0 \<lparr>folder_name = ''root'', folder_entries =
                   [\<lparr>entry_id = ''f1'', entry_name = ''a.txt'', entry_type = ''file''\<rparr>]\<rparr>]
            (main \<lparr>argv = [''node'', ''App.js'', ''R''], dirname = ''/opt/box'', cwd = ''/opt/box''\<rparr>))
          (Failed 0 (OtherError ''ECONNRESET''))) 0 = []
   \<and> ledger (step (run [Listed 0 \<lparr>folder_name = ''root'', folder_entries = []\<rparr>,
                 Listed 0 \<lparr>folder_name = ''root'', folder_entries =
                   [\<lparr>entry_id = ''f1'', entry_name = ''a.txt'', entry_type = ''file''\<rparr>]\<rparr>,
                 Opened 0]
            (main \<lparr>argv = [''node'', ''App.js'', ''R''], dirname = ''/opt/box'', cwd = ''/opt/box''\<rparr>))
          (Copied 0)) 0 = [''f1'']
   \<and> pending (step (run [Listed 0 \<lparr>folder_name = ''root'', folder_entries = []\<rparr>,
                 Listed 0 \<lparr>folder_name = ''root'', folder_entries =
                   [\<lparr>entry_id = ''f1'', entry_name = ''a.txt'', entry_type = ''file''\<rparr>]\<rparr>,
                 Opened 0]
            (main \<lparr>argv = [''node'', ''App.js'', ''R''], dirname = ''/opt/box'', cwd = ''/opt/box''\<rparr>))
          (Copied 0)) = []
   \<and> last (events (step (run [Listed 0 \<lparr>folder_name = ''root'', folder_entries = []\<rparr>,
                 Listed 0 \<lparr>folder_name = ''root'', folder_entries =
                   [\<lparr>entry_id = ''f1'', entry_name = ''a.txt'', entry_type = ''file''\<rparr>]\<rparr>,
                 Opened 0]
            (main \<lparr>argv = [''node'', ''App.js'', ''R''], dirname = ''/opt/box'', cwd = ''/opt/box''\<rparr>))
          (Copied 0))) =
       CopyEnded ''f1'' (Join (Join (Dir ''/opt/box'') ''root'') ''a.txt'')"
proof -
  define e where "e = \<lparr>argv = [''node'', ''App.js'', ''R''], dirname = ''/opt/box'', cwd = ''/opt/box''\<rparr>"
  define fl where "fl = \<lparr>entry_id = ''f1'', entry_name = ''a.txt'', entry_type = ''file''\<rparr>"
  define sched where "sched = [Listed 0 \<lparr>folder_name = ''root'', folder_entries = []\<rparr>,
                 Listed 0 \<lparr>folder_name = ''root'', folder_entries = [fl]\<rparr>]"
  define s where "s = run sched (main e)"
  define c where "c = \<lparr>attempt = 0, rootFolderId = ''R'',
                  localRootPath = Join (Dir ''/opt/box'') ''root'', downloadedFiles = (0::nat)\<rparr>"
  have p: "pending s = [OpenStream c fl (Join (Dir ''/opt/box'') ''root'')]"
    and l: "ledger s 0 = []"
    unfolding s_def sched_def e_def fl_def c_def
    by (simp_all add: run_def main_single loop_defs)
  have f: "\<forall>k. Failed 0 (OtherError ''ECONNRESET'') \<noteq> Opened k" by simp
  note T = marked_iff_piped[of sched e, folded s_def]
  from T f have a: "ledger (step s (Failed 0 (OtherError ''ECONNRESET''))) = ledger s"
    by blast
  from T p have b: "ledger (step s (Opened 0)) = (ledger s)(0 := ledger s 0 @ [''f1''])"
    and d: "pending (step s (Opened 0)) =
       removeAt 0 (pending s) @ [Copying fl (Join (Join (Dir ''/opt/box'') ''root'') ''a.txt'')]"
    by (simp_all add: c_def fl_def del: step.simps)
  have r: "run (sched @ [Opened 0]) (main e) = step s (Opened 0)"
    by (simp add: s_def run_def)
  have g: "\<forall>k. Copied 0 \<noteq> Opened k" by simp
  note U = marked_iff_piped[of "sched @ [Opened 0]" e, unfolded r]
  from U g have h: "ledger (step (step s (Opened 0)) (Copied 0)) = ledger (step s (Opened 0))"
    by blast
  from d p have d0: "pending (step s (Opened 0)) =
       [Copying fl (Join (Join (Dir ''/opt/box'') ''root'') ''a.txt'')]"
    by (simp add: removeAt_def del: step.simps)
  from U d0 have cp: "step (step s (Opened 0)) (Copied 0) =
       (step s (Opened 0))
         \<lparr>pending := removeAt 0 (pending (step s (Opened 0))),
          events := events (step s (Opened 0)) @
            [CopyEnded ''f1'' (Join (Join (Dir ''/opt/box'') ''root'') ''a.txt'')]\<rparr>"
    by (simp add: fl_def del: step.simps)
  have q: "pending (step (step s (Opened 0)) (Copied 0)) = []"
    and z: "last (events (step (step s (Opened 0)) (Copied 0))) =
       CopyEnded ''f1'' (Join (Join (Dir ''/opt/box'') ''root'') ''a.txt'')"
    unfolding cp by (simp_all add: d0 removeAt_def del: step.simps)
  have x: "run [Listed 0 \<lparr>folder_name = ''root'', folder_entries = []\<rparr>,
                 Listed 0 \<lparr>folder_name = ''root'', folder_entries = [fl]\<rparr>, Opened 0] (main e) =
      step s (Opened 0)"
    using r by (simp add: sched_def)
  from p l a b d0 h q z show ?thesis
    unfolding e_def[symmetric] fl_def[symmetric] x
    unfolding sched_def[symmetric] s_def[symmetric]
    by (simp add: c_def del: step.simps)
qed

text \<open>
  C2 as stated fails: the id is pushed directly after the call \<open>stream.pipe(output)\<close>
  (lines 75-76), which only starts the copy. With one root folder holding one file, as
  soon as the read stream of \<open>f1\<close> is opened the array holds \<open>f1\<close> and ``Download
  completed successfully'' is logged, while the copy is still in flight: no byte need
  have been written and the transfer has neither ended nor failed.
\<close>

theorem marked_before_copy_ends:
  "ledger (run [Listed 0 \<lparr>folder_name = ''root'', folder_entries = []\<rparr>,
                Listed 0 \<lparr>folder_name = ''root'', folder_entries =
                  [\<lparr>entry_id = ''f1'', entry_name = ''a.txt'', entry_type = ''file''\<rparr>]\<rparr>,
                Opened 0]
           (main \<lparr>argv = [''node'', ''App.js'', ''R''], dirname = ''/opt/box'', cwd = ''/opt/box''\<rparr>)) 0 =
     [''f1'']
   \<and> pending (run [Listed 0 \<lparr>folder_name = ''root'', folder_entries = []\<rparr>,
                Listed 0 \<lparr>folder_name = ''root'', folder_entries =
                  [\<lparr>entry_id = ''f1'', entry_name = ''a.txt'', entry_type = ''file''\<rparr>]\<rparr>,
                Opened 0]
           (main \<lparr>argv = [''node'', ''App.js'', ''R''], dirname = ''/opt/box'', cwd = ''/opt/box''\<rparr>)) =
     [Copying \<lparr>entry_id = ''f1'', entry_name = ''a.txt'', entry_type = ''file''\<rparr>
        (Join (Join (Dir ''/opt/box'') ''root'') ''a.txt'')]
   \<and> events (run [Listed 0 \<lparr>folder_name = ''root'', folder_entries = []\<rparr>,
                Listed 0 \<lparr>folder_name = ''root'', folder_entries =
                  [\<lparr>entry_id = ''f1'', entry_name = ''a.txt'', entry_type = ''file''\<rparr>]\<rparr>,
                Opened 0]
           (main \<lparr>argv = [''node'', ''App.js'', ''R''], dirname = ''/opt/box'', cwd = ''/opt/box''\<rparr>)) =
     [FoldersGet ''R'' 0 1000,
      MkdirRecursive (Join (Dir ''/opt/box'') ''root''),
      FoldersGet ''R'' 0 1000,
      Log (Downloading ''R''),
      GetReadStream ''f1'',
      CreateWriteStream (Join (Join (Dir ''/opt/box'') ''root'') ''a.txt''),
      Pipe ''f1'' (Join (Join (Dir ''/opt/box'') ''root'') ''a.txt''),
      Push 0 ''f1'',
      Log (Completed ''R''),
      RetryResolved ''R'']"
  by (simp add: run_def main_single loop_defs)

lemma newFiles_none:
  "\<forall>x \<in> set items. entry_type x = ''file'' \<longrightarrow> entry_id x \<in> set L \<Longrightarrow> newFiles L items = []"
  by (auto simp: newFiles_def filter_empty_conv)

lemma quiet_step:
  assumes q: "quiet L s"
    and ok: "\<forall>x \<in> set (listed cm). entry_type x = ''file'' \<longrightarrow> entry_id x \<in> set L"
  shows "quiet L (step s cm)"
proof (rule step_cases[of "quiet L" s cm])
  from q show "quiet L s" .
next
  fix k r and info :: folderInfo
  assume "k < length (pending s)" "pending s ! k = RootInfo r"
  then have "RootInfo r \<in> set (pending s)" using nth_mem by metis
  with q show "quiet L (rootFetched r info (finish k s))" by (auto simp: quiet_def)
next
  fix k and c :: ctx and f p off items and info :: folderInfo
  assume cm: "cm = Listed k info" and k: "k < length (pending s)"
    "pending s ! k = ListPage c f p off items"
  from k have "ListPage c f p off items \<in> set (pending s)" using nth_mem by metis
  with q have c: "downloadedFiles c = 0"
    and items: "\<forall>x \<in> set items. entry_type x = ''file'' \<longrightarrow> entry_id x \<in> set L"
    by (auto simp: quiet_def)
  from ok cm items
  have all: "\<forall>x \<in> set (items @ folder_entries info). entry_type x = ''file'' \<longrightarrow> entry_id x \<in> set L"
    by auto
  from q have l: "ledger s 0 = L" by (simp add: quiet_def)
  have ops: "\<forall>x \<in> set (listingOps c p L (items @ folder_entries info)). quietOp L x"
    using c by (auto simp: listingOps_def newFiles_none[OF all])
  have evs: "\<forall>ev \<in> set (listingEvents f p L (items @ folder_entries info)). \<not> isTransfer ev"
    by (auto simp: listingEvents_def newFiles_none[OF all])
  from q have old: "\<forall>x \<in> set (removeAt k (pending s)). quietOp L x"
    by (auto simp: quiet_def dest: in_removeAt)
  from q have oldev: "\<forall>ev \<in> set (events s). \<not> isTransfer ev" by (simp add: quiet_def)
  show "quiet L (resolveIfDone c (pageFetched c f p off items info (finish k s)))"
    using l c all ops evs old oldev
    by (auto simp: quiet_def pageFetched_pending pageFetched_events resolveIfDone_events)
next
  fix k and c :: ctx and fl p
  assume "k < length (pending s)" "pending s ! k = OpenStream c fl p"
  then have "OpenStream c fl p \<in> set (pending s)" using nth_mem by metis
  with q show "quiet L (resolveIfDone c (streamOpened c fl p (finish k s)))"
    by (auto simp: quiet_def)
next
  fix k r e
  assume "k < length (pending s)" "pending s ! k = RootInfo r"
  then have "RootInfo r \<in> set (pending s)" using nth_mem by metis
  with q show "quiet L (emit [LogError (ErrorFetchingRoot r e)] (finish k s))"
    by (auto simp: quiet_def)
next
  fix k and c :: ctx and f p off items e
  assume k: "k < length (pending s)" "pending s ! k = ListPage c f p off items"
  from k have "ListPage c f p off items \<in> set (pending s)" using nth_mem by metis
  with q have c: "downloadedFiles c = 0" by (auto simp: quiet_def)
  from q have old: "\<forall>x \<in> set (removeAt k (pending s)). quietOp L x"
    by (auto simp: quiet_def dest: in_removeAt)
  from q c old show "quiet L (rejectAttempt c e (finish k s))"
    by (auto simp: quiet_def rejectAttempt_pending rejectAttempt_events)
next
  fix k and c :: ctx and fl p e
  assume "k < length (pending s)" "pending s ! k = OpenStream c fl p"
  then have "OpenStream c fl p \<in> set (pending s)" using nth_mem by metis
  with q show "quiet L (rejectAttempt c e (finish k s))" by (auto simp: quiet_def)
next
  fix k and c :: ctx and ms :: int
  assume k: "k < length (pending s)" "pending s ! k = Timer c ms"
  from k have "Timer c ms \<in> set (pending s)" using nth_mem by metis
  with q have c: "downloadedFiles c = 0" by (auto simp: quiet_def)
  from q have old: "\<forall>x \<in> set (removeAt k (pending s)). quietOp L x"
    by (auto simp: quiet_def dest: in_removeAt)
  from q c old
  show "quiet L (retryDownload (rootFolderId c) (localRootPath c) (downloadedFiles c) (finish k s))"
    by (auto simp: quiet_def)
next
  fix k and fl :: entry and p
  assume "k < length (pending s)" "pending s ! k = Copying fl p"
  then have "Copying fl p \<in> set (pending s)" using nth_mem by metis
  with q show "quiet L (emit [CopyEnded (entry_id fl) p] (finish k s))"
    by (auto simp: quiet_def)
next
  fix k and fl :: entry and p e
  assume "k < length (pending s)" "pending s ! k = Copying fl p"
  then have "Copying fl p \<in> set (pending s)" using nth_mem by metis
  with q show "quiet L (emit [CopyFailed (entry_id fl) p e] (finish k s))"
    by (auto simp: quiet_def)
qed

lemma quiet_run:
  "quiet L s \<Longrightarrow>
   \<forall>x \<in> set (listedEntries sched). entry_type x = ''file'' \<longrightarrow> entry_id x \<in> set L \<Longrightarrow>
   quiet L (run sched s)"
  unfolding run_def listedEntries_def
  by (induction sched arbitrary: s) (simp_all add: quiet_step)

lemma quiet_syncState: "quiet L (syncState root lp dest L)"
  by (simp add: quiet_def syncState_def)

text \<open>
  C6. When the array already holds the id of every file that the remote side lists in
  the course of the run, the synchronizer (with its retries) requests no read stream,
  creates no write stream, pipes and pushes nothing, whatever the order and outcome of
  its requests.
\<close>

theorem no_transfer_when_all_downloaded:
  "\<forall>x \<in> set (listedEntries sched). entry_type x = ''file'' \<longrightarrow> entry_id x \<in> set L \<Longrightarrow>
   filter isTransfer (events (run sched (syncState root lp dest L))) = []
   \<and> ledger (run sched (syncState root lp dest L)) 0 = L"
  using quiet_run[OF quiet_syncState, of sched L root lp dest]
  by (simp add: quiet_def filter_empty_conv)

theorem no_transfer_when_all_downloaded_witness:
  "filter isTransfer (events (run
        [Listed 0 \<lparr>folder_name = ''root'', folder_entries =
           [\<lparr>entry_id = ''f1'', entry_name = ''a.txt'', entry_type = ''file''\<rparr>,
            \<lparr>entry_id = ''d1'', entry_name = ''sub'', entry_type = ''folder''\<rparr>]\<rparr>,
         Listed 0 \<lparr>folder_name = ''sub'', folder_entries =
           [\<lparr>entry_id = ''f2'', entry_name = ''b.txt'', entry_type = ''file''\<rparr>]\<rparr>]
        (syncState ''R'' (Join (Dir ''/data'') ''root'') ''/data'' [''f1'', ''f2'']))) = []
   \<and> ledger (run
        [Listed 0 \<lparr>folder_name = ''root'', folder_entries =
           [\<lparr>entry_id = ''f1'', entry_name = ''a.txt'', entry_type = ''file''\<rparr>,
            \<lparr>entry_id = ''d1'', entry_name = ''sub'', entry_type = ''folder''\<rparr>]\<rparr>,
         Listed 0 \<lparr>folder_name = ''sub'', folder_entries =
           [\<lparr>entry_id = ''f2'', entry_name = ''b.txt'', entry_type = ''file''\<rparr>]\<rparr>]
        (syncState ''R'' (Join (Dir ''/data'') ''root'') ''/data'' [''f1'', ''f2''])) 0 =
      [''f1'', ''f2'']"
proof -
  have h: "\<forall>x \<in> set (listedEntries
        [Listed 0 \<lparr>folder_name = ''root'', folder_entries =
           [\<lparr>entry_id = ''f1'', entry_name = ''a.txt'', entry_type = ''file''\<rparr>,
            \<lparr>entry_id = ''d1'', entry_name = ''sub'', entry_type = ''folder''\<rparr>]\<rparr>,
         Listed 0 \<lparr>folder_name = ''sub'', folder_entries =
           [\<lparr>entry_id = ''f2'', entry_name = ''b.txt'', entry_type = ''file''\<rparr>]\<rparr>]).
      entry_type x = ''file'' \<longrightarrow> entry_id x \<in> set [''f1'', ''f2'']"
    by (simp add: listedEntries_def)
  from no_transfer_when_all_downloaded[OF h, of "''R''" "Join (Dir ''/data'') ''root''" "''/data''"]
  show ?thesis .
qed

lemma parseInt10_nonempty: "parseInt10 h = Finite n \<Longrightarrow> h \<noteq> []"
  by (auto simp: parseInt10_def)

lemma step_sync_failed:
  assumes k: "k < length (pending s)"
    and x: "opAttempt (pending s ! k) = Some (attempt c)" "opCtx (pending s ! k) = Some c"
  shows "step s (Failed k e) = rejectAttempt c e (finish k s)"
  using k x by (cases "pending s ! k") (simp_all add: complete_def)

lemma rejectAttempt_rate_limit:
  "attempt c \<notin> settled s \<Longrightarrow> isRateLimit e \<Longrightarrow>
   rejectAttempt c e s =
     s\<lparr>settled := insert (attempt c) (settled s),
       pending := pending s @ [Timer c (timeoutDelay (timesThousand (retryAfter e)))],
       events := events s @
         [LogError (RateLimitExceeded e), Log (RateLimitWait (rootFolderId c) (retryAfter e)),
          SetTimeout (timesThousand (retryAfter e))]\<rparr>"
  by (simp add: rejectAttempt_def Let_def start_def emit_def)

lemma rejectAttempt_terminal:
  "attempt c \<notin> settled s \<Longrightarrow> \<not> isRateLimit e \<Longrightarrow>
   rejectAttempt c e s =
     s\<lparr>settled := insert (attempt c) (settled s),
       events := events s @
         [LogError (ErrorDownloading (rootFolderId c) e), RetryResolved (rootFolderId c)]\<rparr>"
  by (simp add: rejectAttempt_def Let_def emit_def)

lemma step_fired:
  "j < length (pending t) \<Longrightarrow> pending t ! j = Timer c ms \<Longrightarrow>
   step t (Fired j) =
     t\<lparr>nextAttempt := nextAttempt t + 1,
       pending := removeAt j (pending t) @
         [ListPage \<lparr>attempt = nextAttempt t, rootFolderId = rootFolderId c,
                    localRootPath = localRootPath c, downloadedFiles = downloadedFiles c\<rparr>
            (rootFolderId c) (localRootPath c) 0 []],
       events := events t @ [FoldersGet (rootFolderId c) 0 1000]\<rparr>"
  by (simp add: complete_def retryDownload_def downloadFilesRecursively_def finish_def
      start_def emit_def Let_def)

lemma run_append: "run (xs @ ys) s = run ys (run xs s)"
  by (simp add: run_def)

lemma run_Nil [simp]: "run [] s = s"
  by (simp add: run_def)

lemma run_Cons: "run (cm # sched) s = run sched (step s cm)"
  by (simp add: run_def)

lemma retries_run:
  "\<forall>e \<in> set es. isRateLimit e \<Longrightarrow>
   run (retries es) (syncState root lp dest L) =
     \<lparr>destination = dest, ledger = (\<lambda>a. if a = 0 then L else []), nextLedger = 1,
      nextAttempt = length es + 1, settled = {..<length es},
      pending = [ListPage \<lparr>attempt = length es, rootFolderId = root, localRootPath = lp,
                           downloadedFiles = 0\<rparr> root lp 0 []],
      events = FoldersGet root 0 1000 # retryEvents root es\<rparr>"
proof (induction es rule: rev_induct)
  case Nil
  show ?case
    by (simp add: retries_def retryEvents_def syncState_def retryDownload_def
        downloadFilesRecursively_def start_def emit_def Let_def)
next
  case (snoc e es)
  then have ih: "run (retries es) (syncState root lp dest L) =
     \<lparr>destination = dest, ledger = (\<lambda>a. if a = 0 then L else []), nextLedger = 1,
      nextAttempt = length es + 1, settled = {..<length es},
      pending = [ListPage \<lparr>attempt = length es, rootFolderId = root, localRootPath = lp,
                           downloadedFiles = 0\<rparr> root lp 0 []],
      events = FoldersGet root 0 1000 # retryEvents root es\<rparr>"
    and e: "isRateLimit e" by simp_all
  have split: "retries (es @ [e]) = retries es @ [Failed 0 e, Fired 0]"
    by (simp add: retries_def)
  have evs: "retryEvents root (es @ [e]) = retryEvents root es @
     [LogError (RateLimitExceeded e), Log (RateLimitWait root (retryAfter e)),
      SetTimeout (timesThousand (retryAfter e)), FoldersGet root 0 1000]"
    by (simp add: retryEvents_def)
  show ?case
    unfolding split run_append ih evs
    using e
    by (simp add: run_Cons complete_def finish_def removeAt_def rejectAttempt_def
        retryDownload_def downloadFilesRecursively_def start_def emit_def Let_def lessThan_Suc)
qed

lemma rate_limit_step:
  assumes "k < length (pending s)" "opAttempt (pending s ! k) = Some (attempt c)"
    "opCtx (pending s ! k) = Some c" "attempt c \<notin> settled s"
    "map_of hs ''retry-after'' = Some h" "parseInt10 h = Finite n"
  shows "step s (Failed k (RemoteError 429 hs)) =
      s\<lparr>settled := insert (attempt c) (settled s),
        pending := removeAt k (pending s) @ [Timer c (timeoutDelay (timesThousand (Finite n)))],
        events := events s @
          [LogError (RateLimitExceeded (RemoteError 429 hs)),
           Log (RateLimitWait (rootFolderId c) (Finite n)),
           SetTimeout (timesThousand (Finite n))]\<rparr>"
proof -
  from assms have rl: "isRateLimit (RemoteError 429 hs)"
    and ra: "retryAfter (RemoteError 429 hs) = Finite n"
    using parseInt10_nonempty[of h n] by simp_all
  from assms have "step s (Failed k (RemoteError 429 hs)) =
      rejectAttempt c (RemoteError 429 hs) (finish k s)"
    by (intro step_sync_failed) simp_all
  also from assms rl have "\<dots> = (finish k s)\<lparr>settled := insert (attempt c) (settled (finish k s)),
       pending := pending (finish k s) @
         [Timer c (timeoutDelay (timesThousand (retryAfter (RemoteError 429 hs))))],
       events := events (finish k s) @
         [LogError (RateLimitExceeded (RemoteError 429 hs)),
          Log (RateLimitWait (rootFolderId c) (retryAfter (RemoteError 429 hs))),
          SetTimeout (timesThousand (retryAfter (RemoteError 429 hs)))]\<rparr>"
    by (intro rejectAttempt_rate_limit) simp_all
  also have "\<dots> = s\<lparr>settled := insert (attempt c) (settled s),
        pending := removeAt k (pending s) @ [Timer c (timeoutDelay (timesThousand (Finite n)))],
        events := events s @
          [LogError (RateLimitExceeded (RemoteError 429 hs)),
           Log (RateLimitWait (rootFolderId c) (Finite n)),
           SetTimeout (timesThousand (Finite n))]\<rparr>"
    unfolding ra by (simp add: finish_def)
  finally show ?thesis .
qed

text \<open>
  A rate-limit error whose header reads as \<open>n\<close> seconds, with \<open>n * 1000\<close> milliseconds
  in the range of the timers: the timer set is one of \<open>n * 1000\<close> milliseconds.
\<close>

lemma rate_limit_wait_in_range:
  assumes "k < length (pending s)" "opAttempt (pending s ! k) = Some (attempt c)"
    "opCtx (pending s ! k) = Some c" "attempt c \<notin> settled s"
    "map_of hs ''retry-after'' = Some h" "parseInt10 h = Finite n"
    "1 \<le> n * 1000" "n * 1000 \<le> 2147483647"
  shows "step s (Failed k (RemoteError 429 hs)) =
      s\<lparr>settled := insert (attempt c) (settled s),
        pending := removeAt k (pending s) @ [Timer c (n * 1000)],
        events := events s @
          [LogError (RateLimitExceeded (RemoteError 429 hs)),
           Log (RateLimitWait (rootFolderId c) (Finite n)),
           SetTimeout (Finite (n * 1000))]\<rparr>"
proof -
  have d: "timeoutDelay (timesThousand (Finite n)) = n * 1000"
    using timeout_in_range[OF assms(7,8)] by (rule conjunct2)
  have t: "timesThousand (Finite n) = Finite (n * 1000)"
    using timeout_in_range[OF assms(7,8)] by (rule conjunct1)
  show ?thesis using rate_limit_step[OF assms(1-6)] unfolding d unfolding t .
qed

text \<open>
  C3 fails on a 429 error whose \<open>retry-after\<close> header is \<open>2147484\<close>, a number of seconds
  that \<open>parseInt\<close> reads: the message of line 130 announces a retry after 2147484
  seconds and \<open>setTimeout\<close> is called with 2147484000 milliseconds, more than the
  \<open>2^31 - 1\<close> a timer can hold, so the timer that is set fires after 1 millisecond and
  the root is tried again at once. With the header \<open>2147483\<close> the timer is one of
  2147483000 milliseconds.
\<close>

theorem overlong_retry_after_is_not_waited:
  "isRateLimit (RemoteError 429 [(''retry-after'', ''2147484'')])
   \<and> retryAfter (RemoteError 429 [(''retry-after'', ''2147484'')]) = Finite 2147484
   \<and> step (syncState ''R'' (Dir ''/data/root'') ''/data'' [''f1''])
        (Failed 0 (RemoteError 429 [(''retry-after'', ''2147484'')])) =
       \<lparr>destination = ''/data'', ledger = (\<lambda>a. if a = 0 then [''f1''] else []), nextLedger = 1,
        nextAttempt = 1, settled = {0},
        pending = [Timer \<lparr>attempt = 0, rootFolderId = ''R'', localRootPath = Dir ''/data/root'',
                           downloadedFiles = 0\<rparr> 1],
        events = [FoldersGet ''R'' 0 1000,
                  LogError (RateLimitExceeded (RemoteError 429 [(''retry-after'', ''2147484'')])),
                  Log (RateLimitWait ''R'' (Finite 2147484)),
                  SetTimeout (Finite 2147484000)]\<rparr>
   \<and> pending (step (syncState ''R'' (Dir ''/data/root'') ''/data'' [''f1''])
        (Failed 0 (RemoteError 429 [(''retry-after'', ''2147483'')]))) =
       [Timer \<lparr>attempt = 0, rootFolderId = ''R'', localRootPath = Dir ''/data/root'',
                downloadedFiles = 0\<rparr> 2147483000]
   \<and> events (run [Failed 0 (RemoteError 429 [(''retry-after'', ''2147484'')]), Fired 0]
        (syncState ''R'' (Dir ''/data/root'') ''/data'' [''f1''])) =
       [FoldersGet ''R'' 0 1000,
        LogError (RateLimitExceeded (RemoteError 429 [(''retry-after'', ''2147484'')])),
        Log (RateLimitWait ''R'' (Finite 2147484)),
        SetTimeout (Finite 2147484000),
        FoldersGet ''R'' 0 1000]"
  by (simp add: run_def syncState_eq complete_def finish_def removeAt_def rejectAttempt_def
      retryDownload_def downloadFilesRecursively_def start_def emit_def Let_def
      parseInt10_examples parseInt10_in_range roundDouble_small)

lemma step_root_failed:
  "k < length (pending s) \<Longrightarrow> pending s ! k = RootInfo r \<Longrightarrow>
   step s (Failed k e) =
     s\<lparr>pending := removeAt k (pending s),
       events := events s @ [LogError (ErrorFetchingRoot r e)]\<rparr>"
  by (simp add: complete_def finish_def emit_def)

lemma step_idle: "pending s = [] \<Longrightarrow> step s cm = s"
  by (cases cm) (simp_all add: complete_def)

lemma run_idle: "pending s = [] \<Longrightarrow> run sched s = s"
  unfolding run_def by (induction sched) (simp_all add: step_idle)

text \<open>
  C10. When the request for the root's own \<open>folderInfo\<close> (line 140) fails, with any
  error, a rate-limit error included, the step logs the error and starts nothing: no
  timer, no attempt, no request. With that root alone on the command line nothing is in
  flight afterwards, so nothing further happens whatever the environment does.
\<close>

theorem root_info_failure_is_terminal:
  "(k < length (pending s) \<and> pending s ! k = RootInfo r \<longrightarrow>
      step s (Failed k e) =
        s\<lparr>pending := removeAt k (pending s),
          events := events s @ [LogError (ErrorFetchingRoot r e)]\<rparr>)
   \<and> (r \<noteq> ''--destination'' \<longrightarrow>
        run (Failed 0 e # sched) (main \<lparr>argv = [n, sc, r], dirname = d, cwd = w\<rparr>) =
          \<lparr>destination = d, ledger = (\<lambda>a. []), nextLedger = 0, nextAttempt = 0,
           settled = {}, pending = [],
           events = [FoldersGet r 0 1000, LogError (ErrorFetchingRoot r e)]\<rparr>)"
proof (intro conjI impI)
  assume "k < length (pending s) \<and> pending s ! k = RootInfo r"
  then show "step s (Failed k e) =
        s\<lparr>pending := removeAt k (pending s),
          events := events s @ [LogError (ErrorFetchingRoot r e)]\<rparr>"
    by (intro step_root_failed) simp_all
next
  assume r: "r \<noteq> ''--destination''"
  define m where "m = main \<lparr>argv = [n, sc, r], dirname = d, cwd = w\<rparr>"
  from r have m: "m = \<lparr>destination = d, ledger = (\<lambda>a. []), nextLedger = 0, nextAttempt = 0,
         settled = {}, pending = [RootInfo r], events = [FoldersGet r 0 1000]\<rparr>"
    by (simp add: m_def main_single)
  have "step m (Failed 0 e) =
      m\<lparr>pending := removeAt 0 (pending m),
        events := events m @ [LogError (ErrorFetchingRoot r e)]\<rparr>"
    by (intro step_root_failed) (simp_all add: m)
  then have st: "step m (Failed 0 e) =
      \<lparr>destination = d, ledger = (\<lambda>a. []), nextLedger = 0, nextAttempt = 0,
           settled = {}, pending = [],
           events = [FoldersGet r 0 1000, LogError (ErrorFetchingRoot r e)]\<rparr>"
    by (simp add: m removeAt_def)
  have "run (Failed 0 e # sched) m = run sched (step m (Failed 0 e))"
    by (rule run_Cons)
  also have "\<dots> = step m (Failed 0 e)"
    by (rule run_idle) (simp add: st del: step.simps)
  finally show "run (Failed 0 e # sched) (main \<lparr>argv = [n, sc, r], dirname = d, cwd = w\<rparr>) =
          \<lparr>destination = d, ledger = (\<lambda>a. []), nextLedger = 0, nextAttempt = 0,
           settled = {}, pending = [],
           events = [FoldersGet r 0 1000, LogError (ErrorFetchingRoot r e)]\<rparr>"
    unfolding m_def[symmetric] st .
qed

theorem root_info_failure_is_terminal_witness:
  "isRateLimit (RemoteError 429 [(''retry-after'', ''5'')])
   \<and> ''42'' \<noteq> ''--destination''
   \<and> pending (main \<lparr>argv = [''node'', ''App.js'', ''42''], dirname = ''/opt/box'',
                      cwd = ''/opt/box''\<rparr>) ! 0 = RootInfo ''42''
   \<and> step (main \<lparr>argv = [''node'', ''App.js'', ''42''], dirname = ''/opt/box'', cwd = ''/opt/box''\<rparr>)
        (Failed 0 (RemoteError 429 [(''retry-after'', ''5'')])) =
       \<lparr>destination = ''/opt/box'', ledger = (\<lambda>a. []), nextLedger = 0, nextAttempt = 0,
        settled = {}, pending = [],
        events = [FoldersGet ''42'' 0 1000,
                  LogError (ErrorFetchingRoot ''42'' (RemoteError 429 [(''retry-after'', ''5'')]))]\<rparr>
   \<and> run [Failed 0 (RemoteError 429 [(''retry-after'', ''5'')]), Fired 0,
           Listed 0 \<lparr>folder_name = ''root'', folder_entries = []\<rparr>]
        (main \<lparr>argv = [''node'', ''App.js'', ''42''], dirname = ''/opt/box'', cwd = ''/opt/box''\<rparr>) =
       \<lparr>destination = ''/opt/box'', ledger = (\<lambda>a. []), nextLedger = 0, nextAttempt = 0,
        settled = {}, pending = [],
        events = [FoldersGet ''42'' 0 1000,
                  LogError (ErrorFetchingRoot ''42'' (RemoteError 429 [(''retry-after'', ''5'')]))]\<rparr>"
proof -
  define m where "m = main \<lparr>argv = [''node'', ''App.js'', ''42''], dirname = ''/opt/box'',
      cwd = ''/opt/box''\<rparr>"
  have m: "m = \<lparr>destination = ''/opt/box'', ledger = (\<lambda>a. []), nextLedger = 0, nextAttempt = 0,
         settled = {}, pending = [RootInfo ''42''], events = [FoldersGet ''42'' 0 1000]\<rparr>"
    by (simp add: m_def main_single)
  have r: "''42'' \<noteq> ''--destination''" by simp
  have h: "0 < length (pending m) \<and> pending m ! 0 = RootInfo ''42''" by (simp add: m)
  note T = root_info_failure_is_terminal[where k = 0 and s = m and r = "''42''"
      and e = "RemoteError 429 [(''retry-after'', ''5'')]"
      and sched = "[Fired 0, Listed 0 \<lparr>folder_name = ''root'', folder_entries = []\<rparr>]"
      and n = "''node''" and sc = "''App.js''" and d = "''/opt/box''" and w = "''/opt/box''"]
  from T h have "step m (Failed 0 (RemoteError 429 [(''retry-after'', ''5'')])) =
        m\<lparr>pending := removeAt 0 (pending m),
          events := events m @
            [LogError (ErrorFetchingRoot ''42'' (RemoteError 429 [(''retry-after'', ''5'')]))]\<rparr>"
    by blast
  then have a: "step m (Failed 0 (RemoteError 429 [(''retry-after'', ''5'')])) =
       \<lparr>destination = ''/opt/box'', ledger = (\<lambda>a. []), nextLedger = 0, nextAttempt = 0,
        settled = {}, pending = [],
        events = [FoldersGet ''42'' 0 1000,
                  LogError (ErrorFetchingRoot ''42'' (RemoteError 429 [(''retry-after'', ''5'')]))]\<rparr>"
    by (simp add: m removeAt_def del: step.simps)
  from T r have b: "run [Failed 0 (RemoteError 429 [(''retry-after'', ''5'')]), Fired 0,
           Listed 0 \<lparr>folder_name = ''root'', folder_entries = []\<rparr>] m =
       \<lparr>destination = ''/opt/box'', ledger = (\<lambda>a. []), nextLedger = 0, nextAttempt = 0,
        settled = {}, pending = [],
        events = [FoldersGet ''42'' 0 1000,
                  LogError (ErrorFetchingRoot ''42'' (RemoteError 429 [(''retry-after'', ''5'')]))]\<rparr>"
    unfolding m_def by blast
  have i: "isRateLimit (RemoteError 429 [(''retry-after'', ''5'')])" by simp
  from h have g: "pending m ! 0 = RootInfo ''42''" by blast
  from i r g a b show ?thesis unfolding m_def by blast
qed

lemma listingEvents_noLogError [simp]: "LogError m \<notin> set (listingEvents f p L items)"
  by (auto simp: listingEvents_def)

lemma outer_catch_only_for_root:
  assumes new: "LogError (ErrorFetchingRoot r e') \<in> set (events (step s cm))"
    and old: "LogError (ErrorFetchingRoot r e') \<notin> set (events s)"
  shows "\<exists>k. cm = Failed k e' \<and> k < length (pending s) \<and> pending s ! k = RootInfo r"
proof -
  have "LogError (ErrorFetchingRoot r e') \<in> set (events (step s cm)) \<longrightarrow>
      (\<exists>k. cm = Failed k e' \<and> k < length (pending s) \<and> pending s ! k = RootInfo r)"
  proof (rule step_cases[of _ s cm])
    from old show "LogError (ErrorFetchingRoot r e') \<in> set (events s) \<longrightarrow>
      (\<exists>k. cm = Failed k e' \<and> k < length (pending s) \<and> pending s ! k = RootInfo r)"
      by simp
  next
    fix k r' and info :: folderInfo
    from old show "LogError (ErrorFetchingRoot r e') \<in> set (events (rootFetched r' info (finish k s))) \<longrightarrow>
      (\<exists>k. cm = Failed k e' \<and> k < length (pending s) \<and> pending s ! k = RootInfo r)"
      by simp
  next
    fix k and c :: ctx and f p off items and info :: folderInfo
    from old show "LogError (ErrorFetchingRoot r e') \<in>
        set (events (resolveIfDone c (pageFetched c f p off items info (finish k s)))) \<longrightarrow>
      (\<exists>k. cm = Failed k e' \<and> k < length (pending s) \<and> pending s ! k = RootInfo r)"
      by (simp add: resolveIfDone_events pageFetched_events)
  next
    fix k and c :: ctx and fl p
    from old show "LogError (ErrorFetchingRoot r e') \<in>
        set (events (resolveIfDone c (streamOpened c fl p (finish k s)))) \<longrightarrow>
      (\<exists>k. cm = Failed k e' \<and> k < length (pending s) \<and> pending s ! k = RootInfo r)"
      by (simp add: resolveIfDone_events)
  next
    fix k r'' e
    assume "cm = Failed k e" "k < length (pending s)" "pending s ! k = RootInfo r''"
    with old show "LogError (ErrorFetchingRoot r e') \<in>
        set (events (emit [LogError (ErrorFetchingRoot r'' e)] (finish k s))) \<longrightarrow>
      (\<exists>k. cm = Failed k e' \<and> k < length (pending s) \<and> pending s ! k = RootInfo r)"
      by auto
  next
    fix k and c :: ctx and f p off items e
    from old show "LogError (ErrorFetchingRoot r e') \<in> set (events (rejectAttempt c e (finish k s))) \<longrightarrow>
      (\<exists>k. cm = Failed k e' \<and> k < length (pending s) \<and> pending s ! k = RootInfo r)"
      by (simp add: rejectAttempt_events)
  next
    fix k and c :: ctx and fl p e
    from old show "LogError (ErrorFetchingRoot r e') \<in> set (events (rejectAttempt c e (finish k s))) \<longrightarrow>
      (\<exists>k. cm = Failed k e' \<and> k < length (pending s) \<and> pending s ! k = RootInfo r)"
      by (simp add: rejectAttempt_events)
  next
    fix k and c :: ctx and ms :: int
    from old show "LogError (ErrorFetchingRoot r e') \<in>
        set (events (retryDownload (rootFolderId c) (localRootPath c) (downloadedFiles c)
          (finish k s))) \<longrightarrow>
      (\<exists>k. cm = Failed k e' \<and> k < length (pending s) \<and> pending s ! k = RootInfo r)"
      by simp
  next
    fix k and fl :: entry and p
    from old show "LogError (ErrorFetchingRoot r e') \<in>
        set (events (emit [CopyEnded (entry_id fl) p] (finish k s))) \<longrightarrow>
      (\<exists>k. cm = Failed k e' \<and> k < length (pending s) \<and> pending s ! k = RootInfo r)"
      by simp
  next
    fix k and fl :: entry and p e
    from old show "LogError (ErrorFetchingRoot r e') \<in>
        set (events (emit [CopyFailed (entry_id fl) p e] (finish k s))) \<longrightarrow>
      (\<exists>k. cm = Failed k e' \<and> k < length (pending s) \<and> pending s ! k = RootInfo r)"
      by simp
  qed
  with new show ?thesis by blast
qed

lemma step_last_opened:
  assumes "k < length (pending s)" "pending s ! k = OpenStream c fl p"
    "attempt c \<notin> settled s" "\<not> outstanding (attempt c) (removeAt k (pending s))"
  shows "events (step s (Opened k)) = events s @
      [CreateWriteStream (Join p (entry_name fl)), Pipe (entry_id fl) (Join p (entry_name fl)),
       Push (downloadedFiles c) (entry_id fl),
       Log (Completed (rootFolderId c)), RetryResolved (rootFolderId c)]"
  using assms by (simp add: complete_def resolveIfDone_events outstanding_def)

lemma step_last_listed:
  assumes "k < length (pending s)" "pending s ! k = ListPage c f p off items"
    "attempt c \<notin> settled s" "\<not> outstanding (attempt c) (removeAt k (pending s))"
    "length (folder_entries info) \<noteq> 1000"
    "listingOps c p (ledger s (downloadedFiles c)) (items @ folder_entries info) = []"
  shows "events (step s (Listed k info)) = events s @
      listingEvents f p (ledger s (downloadedFiles c)) (items @ folder_entries info) @
      [Log (Completed (rootFolderId c)), RetryResolved (rootFolderId c)]"
  using assms
  by (simp add: complete_def resolveIfDone_events pageFetched_events pageFetched_pending)

text \<open>
  C9. The promise of \<open>retryDownload\<close> is never rejected. When a request of a pending
  attempt fails with an error that is not a rate-limit signal, the handler of lines
  152-163 logs it with \<open>logError\<close> and returns: the promise is fulfilled, as it is
  when the last request of an attempt succeeds (a read stream opened, or a last page
  that starts nothing), after the completion message. The handler of line 168, which a
  rejection would reach, logs only when the request for the root's own \<open>folderInfo\<close>
  has failed.
\<close>

theorem retry_promise_always_fulfilled:
  "(k < length (pending s) \<and> opAttempt (pending s ! k) = Some (attempt c) \<and>
    opCtx (pending s ! k) = Some c \<and> attempt c \<notin> settled s \<and> \<not> isRateLimit e \<longrightarrow>
      step s (Failed k e) =
        s\<lparr>settled := insert (attempt c) (settled s),
          pending := removeAt k (pending s),
          events := events s @
            [LogError (ErrorDownloading (rootFolderId c) e), RetryResolved (rootFolderId c)]\<rparr>)
   \<and> (k < length (pending s) \<and> pending s ! k = OpenStream c fl p \<and>
        attempt c \<notin> settled s \<and> \<not> outstanding (attempt c) (removeAt k (pending s)) \<longrightarrow>
        events (step s (Opened k)) = events s @
          [CreateWriteStream (Join p (entry_name fl)), Pipe (entry_id fl) (Join p (entry_name fl)),
           Push (downloadedFiles c) (entry_id fl),
           Log (Completed (rootFolderId c)), RetryResolved (rootFolderId c)])
   \<and> (k < length (pending s) \<and> pending s ! k = ListPage c f p off items \<and>
        attempt c \<notin> settled s \<and> \<not> outstanding (attempt c) (removeAt k (pending s)) \<and>
        length (folder_entries info) \<noteq> 1000 \<and>
        listingOps c p (ledger s (downloadedFiles c)) (items @ folder_entries info) = [] \<longrightarrow>
        events (step s (Listed k info)) = events s @
          listingEvents f p (ledger s (downloadedFiles c)) (items @ folder_entries info) @
          [Log (Completed (rootFolderId c)), RetryResolved (rootFolderId c)])
   \<and> (LogError (ErrorFetchingRoot r e') \<in> set (events (step s cm)) \<and>
        LogError (ErrorFetchingRoot r e') \<notin> set (events s) \<longrightarrow>
        (\<exists>j. cm = Failed j e' \<and> j < length (pending s) \<and> pending s ! j = RootInfo r))"
proof (intro conjI impI)
  assume a: "k < length (pending s) \<and> opAttempt (pending s ! k) = Some (attempt c) \<and>
    opCtx (pending s ! k) = Some c \<and> attempt c \<notin> settled s \<and> \<not> isRateLimit e"
  then have "step s (Failed k e) = rejectAttempt c e (finish k s)"
    by (intro step_sync_failed) simp_all
  also from a have "\<dots> = (finish k s)\<lparr>settled := insert (attempt c) (settled (finish k s)),
       events := events (finish k s) @
         [LogError (ErrorDownloading (rootFolderId c) e), RetryResolved (rootFolderId c)]\<rparr>"
    by (intro rejectAttempt_terminal) simp_all
  also have "\<dots> = s\<lparr>settled := insert (attempt c) (settled s),
          pending := removeAt k (pending s),
          events := events s @
            [LogError (ErrorDownloading (rootFolderId c) e), RetryResolved (rootFolderId c)]\<rparr>"
    by (simp add: finish_def)
  finally show "step s (Failed k e) =
        s\<lparr>settled := insert (attempt c) (settled s),
          pending := removeAt k (pending s),
          events := events s @
            [LogError (ErrorDownloading (rootFolderId c) e), RetryResolved (rootFolderId c)]\<rparr>" .
next
  assume "k < length (pending s) \<and> pending s ! k = OpenStream c fl p \<and>
        attempt c \<notin> settled s \<and> \<not> outstanding (attempt c) (removeAt k (pending s))"
  then show "events (step s (Opened k)) = events s @
          [CreateWriteStream (Join p (entry_name fl)), Pipe (entry_id fl) (Join p (entry_name fl)),
           Push (downloadedFiles c) (entry_id fl),
           Log (Completed (rootFolderId c)), RetryResolved (rootFolderId c)]"
    by (intro step_last_opened) simp_all
next
  assume "k < length (pending s) \<and> pending s ! k = ListPage c f p off items \<and>
        attempt c \<notin> settled s \<and> \<not> outstanding (attempt c) (removeAt k (pending s)) \<and>
        length (folder_entries info) \<noteq> 1000 \<and>
        listingOps c p (ledger s (downloadedFiles c)) (items @ folder_entries info) = []"
  then show "events (step s (Listed k info)) = events s @
          listingEvents f p (ledger s (downloadedFiles c)) (items @ folder_entries info) @
          [Log (Completed (rootFolderId c)), RetryResolved (rootFolderId c)]"
    by (intro step_last_listed) simp_all
next
  assume "LogError (ErrorFetchingRoot r e') \<in> set (events (step s cm)) \<and>
        LogError (ErrorFetchingRoot r e') \<notin> set (events s)"
  then show "\<exists>j. cm = Failed j e' \<and> j < length (pending s) \<and> pending s ! j = RootInfo r"
    using outer_catch_only_for_root[of r e' s cm] by blast
qed

theorem retry_promise_always_fulfilled_witness:
  "\<not> isRateLimit (RemoteError 500 [])
   \<and> step (syncState ''R'' (Dir ''/data/root'') ''/data'' []) (Failed 0 (RemoteError 500 [])) =
       \<lparr>destination = ''/data'', ledger = (\<lambda>a. if a = 0 then [] else []), nextLedger = 1,
        nextAttempt = 1, settled = {0}, pending = [],
        events = [FoldersGet ''R'' 0 1000,
                  LogError (ErrorDownloading ''R'' (RemoteError 500 [])),
                  RetryResolved ''R'']\<rparr>
   \<and> events (step (syncState ''R'' (Dir ''/data/root'') ''/data'' [])
         (Listed 0 \<lparr>folder_name = ''root'', folder_entries = []\<rparr>)) =
       [FoldersGet ''R'' 0 1000, Log (Downloading ''R''), Log (Completed ''R''),
        RetryResolved ''R'']
   \<and> events (step
         \<lparr>destination = ''/data'', ledger = (\<lambda>a. []), nextLedger = 1, nextAttempt = 1,
          settled = {},
          pending = [OpenStream \<lparr>attempt = 0, rootFolderId = ''R'',
                       localRootPath = Dir ''/data/root'', downloadedFiles = 0\<rparr>
                     \<lparr>entry_id = ''f1'', entry_name = ''a.txt'', entry_type = ''file''\<rparr>
                     (Dir ''/data/root'')],
          events = []\<rparr> (Opened 0)) =
       [CreateWriteStream (Join (Dir ''/data/root'') ''a.txt''),
        Pipe ''f1'' (Join (Dir ''/data/root'') ''a.txt''), Push 0 ''f1'',
        Log (Completed ''R''), RetryResolved ''R'']
   \<and> LogError (ErrorFetchingRoot ''42'' (RemoteError 500 [])) \<in> set (events (step
         (main \<lparr>argv = [''node'', ''App.js'', ''42''], dirname = ''/opt/box'', cwd = ''/opt/box''\<rparr>)
         (Failed 0 (RemoteError 500 []))))
   \<and> pending (main \<lparr>argv = [''node'', ''App.js'', ''42''], dirname = ''/opt/box'',
                      cwd = ''/opt/box''\<rparr>) ! 0 = RootInfo ''42''"
proof -
  define s where "s = syncState ''R'' (Dir ''/data/root'') ''/data'' []"
  define c where "c = \<lparr>attempt = 0, rootFolderId = ''R'', localRootPath = Dir ''/data/root'',
                         downloadedFiles = (0::nat)\<rparr>"
  define fl where "fl = \<lparr>entry_id = ''f1'', entry_name = ''a.txt'', entry_type = ''file''\<rparr>"
  define u where "u = \<lparr>destination = ''/data'', ledger = (\<lambda>a. []), nextLedger = 1,
      nextAttempt = 1, settled = {}, pending = [OpenStream c fl (Dir ''/data/root'')],
      events = []\<rparr>"
  define m where "m = main \<lparr>argv = [''node'', ''App.js'', ''42''], dirname = ''/opt/box'',
      cwd = ''/opt/box''\<rparr>"
  have s: "s = \<lparr>destination = ''/data'', ledger = (\<lambda>a. if a = 0 then [] else []),
      nextLedger = 1, nextAttempt = 1, settled = {},
      pending = [ListPage c ''R'' (Dir ''/data/root'') 0 []],
      events = [FoldersGet ''R'' 0 1000]\<rparr>"
    unfolding s_def c_def by (rule syncState_eq)
  have m: "m = \<lparr>destination = ''/opt/box'', ledger = (\<lambda>a. []), nextLedger = 0, nextAttempt = 0,
         settled = {}, pending = [RootInfo ''42''], events = [FoldersGet ''42'' 0 1000]\<rparr>"
    by (simp add: m_def main_single)
  note T = retry_promise_always_fulfilled[where k = 0 and s = s and c = c
      and e = "RemoteError 500 []" and f = "''R''" and p = "Dir ''/data/root''" and off = 0
      and items = "[]" and info = "\<lparr>folder_name = ''root'', folder_entries = []\<rparr>"]
  note U = retry_promise_always_fulfilled[where k = 0 and s = u and c = c and fl = fl
      and p = "Dir ''/data/root''"]
  note M = retry_promise_always_fulfilled[where s = m and cm = "Failed 0 (RemoteError 500 [])"
      and r = "''42''" and e' = "RemoteError 500 []"]
  have h1: "0 < length (pending s) \<and> opAttempt (pending s ! 0) = Some (attempt c) \<and>
    opCtx (pending s ! 0) = Some c \<and> attempt c \<notin> settled s \<and>
    \<not> isRateLimit (RemoteError 500 [])"
    by (simp add: s)
  have h2: "0 < length (pending u) \<and> pending u ! 0 = OpenStream c fl (Dir ''/data/root'') \<and>
        attempt c \<notin> settled u \<and> \<not> outstanding (attempt c) (removeAt 0 (pending u))"
    by (simp add: u_def removeAt_def outstanding_def)
  have h3: "0 < length (pending s) \<and> pending s ! 0 = ListPage c ''R'' (Dir ''/data/root'') 0 [] \<and>
        attempt c \<notin> settled s \<and> \<not> outstanding (attempt c) (removeAt 0 (pending s)) \<and>
        length (folder_entries \<lparr>folder_name = ''root'', folder_entries = []\<rparr>) \<noteq> 1000 \<and>
        listingOps c (Dir ''/data/root'') (ledger s (downloadedFiles c))
          ([] @ folder_entries \<lparr>folder_name = ''root'', folder_entries = []\<rparr>) = []"
    by (simp add: s removeAt_def outstanding_def listingOps_def newFiles_def subfolders_def)
  have st: "step m (Failed 0 (RemoteError 500 [])) =
      m\<lparr>pending := removeAt 0 (pending m),
        events := events m @ [LogError (ErrorFetchingRoot ''42'' (RemoteError 500 []))]\<rparr>"
    by (intro step_root_failed) (simp_all add: m)
  have h4: "LogError (ErrorFetchingRoot ''42'' (RemoteError 500 [])) \<in>
        set (events (step m (Failed 0 (RemoteError 500 [])))) \<and>
      LogError (ErrorFetchingRoot ''42'' (RemoteError 500 [])) \<notin> set (events m)"
    unfolding st by (simp add: m)
  from T h1 have a: "step s (Failed 0 (RemoteError 500 [])) =
        s\<lparr>settled := insert (attempt c) (settled s),
          pending := removeAt 0 (pending s),
          events := events s @
            [LogError (ErrorDownloading (rootFolderId c) (RemoteError 500 [])),
             RetryResolved (rootFolderId c)]\<rparr>"
    by blast
  from T h3 have b: "events (step s (Listed 0 \<lparr>folder_name = ''root'', folder_entries = []\<rparr>)) =
      events s @
          listingEvents ''R'' (Dir ''/data/root'') (ledger s (downloadedFiles c))
            ([] @ folder_entries \<lparr>folder_name = ''root'', folder_entries = []\<rparr>) @
          [Log (Completed (rootFolderId c)), RetryResolved (rootFolderId c)]"
    by blast
  from U h2 have d: "events (step u (Opened 0)) = events u @
          [CreateWriteStream (Join (Dir ''/data/root'') (entry_name fl)),
           Pipe (entry_id fl) (Join (Dir ''/data/root'') (entry_name fl)),
           Push (downloadedFiles c) (entry_id fl),
           Log (Completed (rootFolderId c)), RetryResolved (rootFolderId c)]"
    by blast
  from M h4 have "\<exists>j. Failed 0 (RemoteError 500 []) = Failed j (RemoteError 500 []) \<and>
      j < length (pending m) \<and> pending m ! j = RootInfo ''42''"
    by blast
  then have g: "pending m ! 0 = RootInfo ''42''" by simp
  from h4 have h: "LogError (ErrorFetchingRoot ''42'' (RemoteError 500 [])) \<in>
        set (events (step m (Failed 0 (RemoteError 500 []))))" by blast
  have e1: "\<not> isRateLimit (RemoteError 500 [])" by simp
  have e2: "step s (Failed 0 (RemoteError 500 [])) =
       \<lparr>destination = ''/data'', ledger = (\<lambda>a. if a = 0 then [] else []), nextLedger = 1,
        nextAttempt = 1, settled = {0}, pending = [],
        events = [FoldersGet ''R'' 0 1000,
                  LogError (ErrorDownloading ''R'' (RemoteError 500 [])),
                  RetryResolved ''R'']\<rparr>"
    unfolding a by (simp add: s c_def removeAt_def)
  have e3: "events (step s (Listed 0 \<lparr>folder_name = ''root'', folder_entries = []\<rparr>)) =
       [FoldersGet ''R'' 0 1000, Log (Downloading ''R''), Log (Completed ''R''),
        RetryResolved ''R'']"
    unfolding b by (simp add: s c_def listingEvents_def newFiles_def subfolders_def)
  have e4: "events (step u (Opened 0)) =
       [CreateWriteStream (Join (Dir ''/data/root'') ''a.txt''),
        Pipe ''f1'' (Join (Dir ''/data/root'') ''a.txt''), Push 0 ''f1'',
        Log (Completed ''R''), RetryResolved ''R'']"
    unfolding d by (simp add: u_def c_def fl_def)
  from e1 e2 e3 e4 h g show ?thesis
    unfolding s_def u_def c_def fl_def m_def by blast
qed

text \<open>
  C4 fails on a 429 error whose \<open>retry-after\<close> header is not empty but does not parse
  (here an HTTP date): line 153 only tests that the header is there, \<open>parseInt\<close> gives
  \<open>NaN\<close>, the timer is set with \<open>NaN\<close> and, when it fires, the root is tried again.
\<close>

theorem unparseable_retry_after_is_retried:
  "isRateLimit (RemoteError 429 [(''retry-after'', ''Fri, 31 Dec 1999 23:59:59 GMT'')])
   \<and> retryAfter (RemoteError 429 [(''retry-after'', ''Fri, 31 Dec 1999 23:59:59 GMT'')]) = NaN
   \<and> run [Failed 0 (RemoteError 429 [(''retry-after'', ''Fri, 31 Dec 1999 23:59:59 GMT'')]),
           Fired 0]
        (syncState ''R'' (Dir ''/data/root'') ''/data'' []) =
       \<lparr>destination = ''/data'', ledger = (\<lambda>a. if a = 0 then [] else []), nextLedger = 1,
        nextAttempt = 2, settled = {0},
        pending = [ListPage \<lparr>attempt = 1, rootFolderId = ''R'',
                             localRootPath = Dir ''/data/root'', downloadedFiles = 0\<rparr>
                     ''R'' (Dir ''/data/root'') 0 []],
        events = [FoldersGet ''R'' 0 1000,
                  LogError (RateLimitExceeded
                    (RemoteError 429 [(''retry-after'', ''Fri, 31 Dec 1999 23:59:59 GMT'')])),
                  Log (RateLimitWait ''R'' NaN), SetTimeout NaN,
                  FoldersGet ''R'' 0 1000]\<rparr>"
proof -
  have nan: "parseInt10 ''Fri, 31 Dec 1999 23:59:59 GMT'' = NaN"
    by (simp add: parseInt10_def isWhiteSpace_def isDigit_def)
  have rl: "\<forall>e \<in> set [RemoteError 429 [(''retry-after'', ''Fri, 31 Dec 1999 23:59:59 GMT'')]].
      isRateLimit e"
    by simp
  show ?thesis
    using retries_run[OF rl, of "''R''" "Dir ''/data/root''" "''/data''" "[]"] nan
    by (simp add: retries_def retryEvents_def lessThan_Suc)
qed

text \<open>
  C1 fails on this run of one root folder holding two files. In the first attempt the
  read stream of \<open>f2\<close> is refused with a rate-limit error while that of \<open>f1\<close> is still
  being opened; the timer fires and the second attempt lists the folder before the
  first stream of \<open>f1\<close> has arrived, so \<open>f1\<close> is not yet in the array and is requested
  again. Both streams of \<open>f1\<close> are then piped to the same local path and \<open>f1\<close> is
  pushed twice onto the one array of the run.
\<close>

theorem file_transferred_twice:
  "filter (\<lambda>ev. ev = GetReadStream ''f1'' \<or> ev = Pipe ''f1'' (Join (Join (Dir ''/opt/box'') ''root'') ''a.txt''))
     (events (run
       [Listed 0 \<lparr>folder_name = ''root'', folder_entries = []\<rparr>,
        Listed 0 \<lparr>folder_name = ''root'', folder_entries =
          [\<lparr>entry_id = ''f1'', entry_name = ''a.txt'', entry_type = ''file''\<rparr>,
           \<lparr>entry_id = ''f2'', entry_name = ''b.txt'', entry_type = ''file''\<rparr>]\<rparr>,
        Failed 1 (RemoteError 429 [(''retry-after'', ''1'')]),
        Fired 1,
        Listed 1 \<lparr>folder_name = ''root'', folder_entries =
          [\<lparr>entry_id = ''f1'', entry_name = ''a.txt'', entry_type = ''file''\<rparr>,
           \<lparr>entry_id = ''f2'', entry_name = ''b.txt'', entry_type = ''file''\<rparr>]\<rparr>,
        Opened 0, Opened 0, Opened 0]
       (main \<lparr>argv = [''node'', ''App.js'', ''R''], dirname = ''/opt/box'', cwd = ''/opt/box''\<rparr>))) =
     [GetReadStream ''f1'', GetReadStream ''f1'',
      Pipe ''f1'' (Join (Join (Dir ''/opt/box'') ''root'') ''a.txt''),
      Pipe ''f1'' (Join (Join (Dir ''/opt/box'') ''root'') ''a.txt'')]
   \<and> ledger (run
       [Listed 0 \<lparr>folder_name = ''root'', folder_entries = []\<rparr>,
        Listed 0 \<lparr>folder_name = ''root'', folder_entries =
          [\<lparr>entry_id = ''f1'', entry_name = ''a.txt'', entry_type = ''file''\<rparr>,
           \<lparr>entry_id = ''f2'', entry_name = ''b.txt'', entry_type = ''file''\<rparr>]\<rparr>,
        Failed 1 (RemoteError 429 [(''retry-after'', ''1'')]),
        Fired 1,
        Listed 1 \<lparr>folder_name = ''root'', folder_entries =
          [\<lparr>entry_id = ''f1'', entry_name = ''a.txt'', entry_type = ''file''\<rparr>,
           \<lparr>entry_id = ''f2'', entry_name = ''b.txt'', entry_type = ''file''\<rparr>]\<rparr>,
        Opened 0, Opened 0, Opened 0]
       (main \<lparr>argv = [''node'', ''App.js'', ''R''], dirname = ''/opt/box'', cwd = ''/opt/box''\<rparr>)) 0 =
     [''f1'', ''f1'', ''f2'']"
  by (simp add: run_def main_single loop_defs parseInt10_examples roundDouble_small)

end
